theory Spec2Isabelle
  imports Main "HOL-Library.Sublist"
begin

section \<open>JavaScript strings\<close>

text \<open>
  A JavaScript string is a sequence of UTF-16 code units. The model uses \<^typ>\<open>string\<close>
  and reads a \<^typ>\<open>char\<close> as one code unit in the range U+0000 .. U+00FF, so
  \<open>length\<close> is the \<open>.length\<close> of the source. The chunks a body reader delivers are
  modelled after \<open>TextDecoder.decode(value, {stream: true})\<close>, that is, as text.
\<close>

definition LF :: char where
  "LF = CHR 0x0A"

definition CR :: char where
  "CR = CHR 0x0D"

definition DQ :: char where
  "DQ = CHR 0x22"

definition BSL :: char where
  "BSL = CHR 0x5C"

text \<open>
  The characters \<open>String.prototype.trim\<close> and the regular expression class \<open>\s\<close>
  remove: ECMAScript's WhiteSpace and LineTerminator, within U+0000 .. U+00FF
  (TAB, LF, VT, FF, CR, SPACE, NBSP).
\<close>

definition isWhiteSpace :: "char \<Rightarrow> bool" where
  "isWhiteSpace c = (c \<in> set [CHR 0x09, CHR 0x0A, CHR 0x0B, CHR 0x0C, CHR 0x0D, CHR 0x20, CHR 0xA0])"

definition trimStart :: "string \<Rightarrow> string" where
  "trimStart s = dropWhile isWhiteSpace s"

definition trimEnd :: "string \<Rightarrow> string" where
  "trimEnd s = rev (dropWhile isWhiteSpace (rev s))"

definition trim :: "string \<Rightarrow> string" where
  "trim s = trimEnd (trimStart s)"

definition startsWith :: "string \<Rightarrow> string \<Rightarrow> bool" where
  "startsWith s p = prefix p s"

text \<open>\<open>s.includes(p)\<close>.\<close>

fun includesStr :: "string \<Rightarrow> string \<Rightarrow> bool" where
  "includesStr [] p = (p = [])"
| "includesStr (c # cs) p = (if prefix p (c # cs) then True else includesStr cs p)"

text \<open>\<open>s.indexOf(p)\<close>; \<open>None\<close> stands for the result \<open>-1\<close>.\<close>

fun indexOf :: "string \<Rightarrow> string \<Rightarrow> nat option" where
  "indexOf [] p = (if p = [] then Some 0 else None)"
| "indexOf (c # cs) p = (if prefix p (c # cs) then Some 0 else map_option Suc (indexOf cs p))"

text \<open>\<open>s.split("\n")\<close>: the lines of \<open>s\<close>; the empty string has one (empty) line.\<close>

fun splitLines :: "string \<Rightarrow> string list" where
  "splitLines [] = [[]]"
| "splitLines (c # cs) =
     (if c = LF then [] # splitLines cs
      else (case splitLines cs of
              [] \<Rightarrow> [[c]]
            | line # rest \<Rightarrow> (c # line) # rest))"

text \<open>\<open>xs.join(sep)\<close> on an array of strings.\<close>

fun join :: "string \<Rightarrow> string list \<Rightarrow> string" where
  "join sep [] = []"
| "join sep [x] = x"
| "join sep (x # y # ys) = x @ sep @ join sep (y # ys)"

text \<open>\<open>s.replace(/\r\n/g, "\n").replace(/\r/g, "\n")\<close>, in its two passes.\<close>

fun replaceCRLF :: "string \<Rightarrow> string" where
  "replaceCRLF (a # b # cs) =
     (if a = CR \<and> b = LF then LF # replaceCRLF cs else a # replaceCRLF (b # cs))"
| "replaceCRLF cs = cs"

definition replaceCR :: "string \<Rightarrow> string" where
  "replaceCR s = map (\<lambda>c. if c = CR then LF else c) s"

definition normalizeNewlines :: "string \<Rightarrow> string" where
  "normalizeNewlines s = replaceCR (replaceCRLF s)"

text \<open>A text that ends with CR, and a text that starts with LF: a cut between two
  such texts falls inside a CR LF pair.\<close>

definition endsWithCR :: "string \<Rightarrow> bool" where
  "endsWithCR s = (s \<noteq> [] \<and> last s = CR)"

definition startsWithLF :: "string \<Rightarrow> bool" where
  "startsWithLF s = (s \<noteq> [] \<and> hd s = LF)"

text \<open>
  The case folding of a regular expression with the \<open>i\<close> flag (and no \<open>u\<close> flag), for
  patterns of ASCII letters: only the two ASCII cases of a letter match it.
\<close>

definition lowerASCII :: "char \<Rightarrow> char" where
  "lowerASCII c =
     (case map_of (zip ''ABCDEFGHIJKLMNOPQRSTUVWXYZ'' ''abcdefghijklmnopqrstuvwxyz'') c of
        Some l \<Rightarrow> l
      | None \<Rightarrow> c)"

text \<open>\<open>/p/i.test(s)\<close> for a pattern \<open>p\<close> of lower-case literal characters.\<close>

definition testCI :: "string \<Rightarrow> string \<Rightarrow> bool" where
  "testCI p s = includesStr (map lowerASCII s) p"

text \<open>The decimal numeral of a number, as a template literal prints a status code.\<close>

definition digitChar :: "nat \<Rightarrow> char" where
  "digitChar d = ''0123456789'' ! (d mod 10)"

fun decimal :: "nat \<Rightarrow> string" where
  "decimal n = (if n < 10 then [digitChar n] else decimal (n div 10) @ [digitChar n])"

declare decimal.simps [simp del]

section \<open>Authorization header (shared/config.js)\<close>

text \<open>
  \<open>/^Bearer\\s+/i.test(t)\<close>, as the source spells the regular expression: the pattern is
  the letters \<open>Bearer\<close>, then the escape \<open>\\\<close> (one literal backslash), then \<open>s+\<close> (one or
  more letters s). The test succeeds when the text starts, ignoring case, with
  \<open>Bearer\<close>, a backslash and an \<open>s\<close>.
\<close>

definition bearerSchemeTest :: "string \<Rightarrow> bool" where
  "bearerSchemeTest t = prefix (''bearer'' @ [BSL] @ ''s'') (map lowerASCII t)"

text \<open>
  \<open>buildAuthHeaders(token)\<close>: the value of the \<open>Authorization\<close> header, \<open>None\<close> for the
  empty header object.
\<close>

definition buildAuthHeaders :: "string \<Rightarrow> string option" where
  "buildAuthHeaders token =
     (let t = trim token in
      if t = [] then None
      else if bearerSchemeTest t then Some t
      else Some (''Bearer '' @ t))"

section \<open>JavaScript values\<close>

text \<open>
  The values \<open>JSON.parse\<close> produces, and \<open>undefined\<close>, which property access yields.
  A number is held as the text \<open>String(n)\<close> gives for it: the program looks at a number
  only through its truth value and through \<open>String\<close>. An object is the list of its own
  properties, one entry for each key.
\<close>

datatype jsval =
    JUndefined
  | JNull
  | JBool bool
  | JNum string
  | JStr string
  | JArr "jsval list"
  | JObj "(string \<times> jsval) list"

fun truthy :: "jsval \<Rightarrow> bool" where
  "truthy JUndefined = False"
| "truthy JNull = False"
| "truthy (JBool b) = b"
| "truthy (JNum n) = (if n = ''0'' then False else if n = ''NaN'' then False else True)"
| "truthy (JStr s) = (s \<noteq> [])"
| "truthy (JArr xs) = True"
| "truthy (JObj kvs) = True"

text \<open>\<open>typeof v === "object"\<close>.\<close>

fun typeofObject :: "jsval \<Rightarrow> bool" where
  "typeofObject JNull = True"
| "typeofObject (JArr xs) = True"
| "typeofObject (JObj kvs) = True"
| "typeofObject v = False"

text \<open>\<open>typeof v === "string"\<close>, and the string itself.\<close>

fun isString :: "jsval \<Rightarrow> bool" where
  "isString (JStr s) = True"
| "isString v = False"

fun strOf :: "jsval \<Rightarrow> string" where
  "strOf (JStr s) = s"
| "strOf v = []"

text \<open>
  \<open>v?.k\<close> (and \<open>v.k\<close> where the source has checked \<open>v\<close> before), for the property names
  the program reads: \<open>type\<close>, \<open>response\<close>, \<open>text\<close>, \<open>error\<close>, \<open>message\<close>, \<open>delta\<close>,
  \<open>content\<close>, \<open>choices\<close>, \<open>output\<close>, \<open>output_text\<close>. None of them is a property of a
  prototype, so only an object's own properties answer.
\<close>

fun getProp :: "jsval \<Rightarrow> string \<Rightarrow> jsval" where
  "getProp (JObj kvs) k = (case map_of kvs k of Some v \<Rightarrow> v | None \<Rightarrow> JUndefined)"
| "getProp v k = JUndefined"

text \<open>\<open>v?.[0]\<close>: the first element of an array, the first code unit of a string, the
  property \<open>"0"\<close> of an object.\<close>

fun index0 :: "jsval \<Rightarrow> jsval" where
  "index0 (JArr xs) = (case xs of [] \<Rightarrow> JUndefined | x # _ \<Rightarrow> x)"
| "index0 (JStr s) = (case s of [] \<Rightarrow> JUndefined | c # _ \<Rightarrow> JStr [c])"
| "index0 (JObj kvs) = getProp (JObj kvs) ''0''"
| "index0 v = JUndefined"

text \<open>\<open>a ?? b\<close>.\<close>

definition nullish :: "jsval \<Rightarrow> jsval \<Rightarrow> jsval" where
  "nullish a b = (if a = JUndefined then b else if a = JNull then b else a)"

text \<open>
  \<open>String(v)\<close>; \<open>None\<close> when the conversion throws a TypeError: an object whose own
  property \<open>toString\<close> hides the callable one of the prototype has no primitive value.
\<close>

fun toStringJS :: "jsval \<Rightarrow> string option" where
  "toStringJS JUndefined = Some ''undefined''"
| "toStringJS JNull = Some ''null''"
| "toStringJS (JBool b) = Some (if b then ''true'' else ''false'')"
| "toStringJS (JNum n) = Some n"
| "toStringJS (JStr s) = Some s"
| "toStringJS (JArr xs) =
     map_option (join '','')
       (those (map (\<lambda>x. if x = JUndefined then Some [] else if x = JNull then Some []
                         else toStringJS x) xs))"
| "toStringJS (JObj kvs) =
     (if map_of kvs ''toString'' = None then Some ''[object Object]'' else None)"

section \<open>The host\<close>

text \<open>
  What the program takes from the JavaScript engine and cannot be read from the
  repository: \<open>JSON.parse\<close> (\<open>None\<close> when it throws) and the message of the TypeError that
  \<open>String\<close> throws. Every function below that depends on them takes the host as its
  first argument, and the general theorems hold for every host.
\<close>

record host =
  JSON_parse :: "string \<Rightarrow> jsval option"
  toPrimitiveMessage :: string

text \<open>
  A thrown value: an error object with its \<open>name\<close> and \<open>message\<close> (\<open>new Error(m)\<close> is
  \<open>ErrorObj ''Error'' m\<close>, a rejection of \<open>fetch\<close> or of a body read is a \<open>TypeError\<close> or a
  DOMException named \<open>AbortError\<close>), or the value \<open>undefined\<close>.
\<close>

datatype thrown = ErrorObj string string | ThrownUndefined

definition newError :: "string \<Rightarrow> thrown" where
  "newError m = ErrorObj ''Error'' m"

text \<open>\<open>String(v || "")\<close>.\<close>

definition stringOrEmpty :: "host \<Rightarrow> jsval \<Rightarrow> thrown + string" where
  "stringOrEmpty h v =
     (if truthy v then
        (case toStringJS v of
           Some s \<Rightarrow> Inr s
         | None \<Rightarrow> Inl (ErrorObj ''TypeError'' (toPrimitiveMessage h)))
      else Inr [])"

section \<open>A reference host\<close>

text \<open>
  The concrete examples need a concrete \<open>JSON.parse\<close>. The reader below covers the JSON
  texts made of objects, arrays, strings with the two-character escapes, the literals
  \<open>true\<close>, \<open>false\<close>, \<open>null\<close> and integers of at most fifteen digits (whose \<open>String\<close> is
  the numeral itself); on these it returns what \<open>JSON.parse\<close> returns, and it rejects
  every text that is not JSON. It is used only at the inputs of the examples.
\<close>

definition isJsonSpace :: "char \<Rightarrow> bool" where
  "isJsonSpace c = (c \<in> set [CHR 0x20, CHR 0x09, CHR 0x0A, CHR 0x0D])"

definition skipSpace :: "string \<Rightarrow> string" where
  "skipSpace s = dropWhile isJsonSpace s"

definition isDigit :: "char \<Rightarrow> bool" where
  "isDigit c = (c \<in> set ''0123456789'')"

definition isControl :: "char \<Rightarrow> bool" where
  "isControl c = ((of_char c :: nat) < 32)"

definition unescape :: "char \<Rightarrow> char option" where
  "unescape e =
     map_of [(DQ, DQ), (BSL, BSL), (CHR ''/'', CHR ''/''), (CHR ''b'', CHR 0x08),
             (CHR ''f'', CHR 0x0C), (CHR ''n'', CHR 0x0A), (CHR ''r'', CHR 0x0D),
             (CHR ''t'', CHR 0x09)] e"

text \<open>The characters of a string after its opening quote, up to the closing one.\<close>

fun readStringBody :: "string \<Rightarrow> string \<Rightarrow> (string \<times> string) option" where
  "readStringBody acc [] = None"
| "readStringBody acc (c # cs) =
     (if c = DQ then Some (rev acc, cs)
      else if c = BSL then
        (case cs of
           [] \<Rightarrow> None
         | e # cs' \<Rightarrow>
             (case unescape e of None \<Rightarrow> None | Some x \<Rightarrow> readStringBody (x # acc) cs'))
      else if isControl c then None
      else readStringBody (c # acc) cs)"

definition readNumber :: "string \<Rightarrow> (jsval \<times> string) option" where
  "readNumber s =
     (let negative = prefix ''-'' s;
          r = (if negative then drop 1 s else s);
          ds = takeWhile isDigit r;
          rest = dropWhile isDigit r
      in if ds = [] then None
         else if 15 < length ds then None
         else if 1 < length ds \<and> hd ds = CHR ''0'' then None
         else if prefix ''.'' rest then None
         else if prefix ''e'' rest then None
         else if prefix ''E'' rest then None
         else Some (JNum (if negative \<and> ds \<noteq> ''0'' then CHR ''-'' # ds else ds), rest))"

text \<open>Writing a property: a later value for a key replaces the earlier one.\<close>

fun setProp :: "(string \<times> jsval) list \<Rightarrow> string \<Rightarrow> jsval \<Rightarrow> (string \<times> jsval) list" where
  "setProp [] k v = [(k, v)]"
| "setProp ((k', v') # kvs) k v =
     (if k' = k then (k, v) # kvs else (k', v') # setProp kvs k v)"

text \<open>
  One value, the elements of an array after \<open>[\<close> or \<open>,\<close>, the members of an object after
  \<open>{\<close> or \<open>,\<close>. The first argument bounds the number of calls; every call but the first
  follows the reading of a character, so the length of the text is enough.
\<close>

fun readValue :: "nat \<Rightarrow> string \<Rightarrow> (jsval \<times> string) option"
  and readElements :: "nat \<Rightarrow> jsval list \<Rightarrow> string \<Rightarrow> (jsval list \<times> string) option"
  and readMembers ::
    "nat \<Rightarrow> (string \<times> jsval) list \<Rightarrow> string \<Rightarrow> ((string \<times> jsval) list \<times> string) option"
  where
  "readValue 0 s = None"
| "readValue (Suc n) s =
     (case skipSpace s of
        [] \<Rightarrow> None
      | c # cs \<Rightarrow>
          if c = CHR ''{'' then
            (if prefix ''}'' (skipSpace cs) then Some (JObj [], drop 1 (skipSpace cs))
             else map_option (\<lambda>(kvs, r). (JObj kvs, r)) (readMembers n [] cs))
          else if c = CHR ''['' then
            (if prefix '']'' (skipSpace cs) then Some (JArr [], drop 1 (skipSpace cs))
             else map_option (\<lambda>(xs, r). (JArr xs, r)) (readElements n [] cs))
          else if c = DQ then map_option (\<lambda>(t, r). (JStr t, r)) (readStringBody [] cs)
          else if prefix ''true'' (c # cs) then Some (JBool True, drop 4 (c # cs))
          else if prefix ''false'' (c # cs) then Some (JBool False, drop 5 (c # cs))
          else if prefix ''null'' (c # cs) then Some (JNull, drop 4 (c # cs))
          else readNumber (c # cs))"
| "readElements 0 acc s = None"
| "readElements (Suc n) acc s =
     (case readValue n s of
        None \<Rightarrow> None
      | Some (v, r) \<Rightarrow>
          if prefix '','' (skipSpace r) then readElements n (acc @ [v]) (drop 1 (skipSpace r))
          else if prefix '']'' (skipSpace r) then Some (acc @ [v], drop 1 (skipSpace r))
          else None)"
| "readMembers 0 acc s = None"
| "readMembers (Suc n) acc s =
     (if \<not> prefix [DQ] (skipSpace s) then None
      else
        (case readStringBody [] (drop 1 (skipSpace s)) of
           None \<Rightarrow> None
         | Some (k, r) \<Rightarrow>
             if \<not> prefix '':'' (skipSpace r) then None
             else
               (case readValue n (drop 1 (skipSpace r)) of
                  None \<Rightarrow> None
                | Some (v, r') \<Rightarrow>
                    if prefix '','' (skipSpace r')
                    then readMembers n (setProp acc k v) (drop 1 (skipSpace r'))
                    else if prefix ''}'' (skipSpace r')
                    then Some (setProp acc k v, drop 1 (skipSpace r'))
                    else None)))"

definition parseJson :: "string \<Rightarrow> jsval option" where
  "parseJson s =
     (case readValue (Suc (length s)) s of
        None \<Rightarrow> None
      | Some (v, r) \<Rightarrow> if skipSpace r = [] then Some v else None)"

definition refHost :: host where
  "refHost =
     \<lparr>JSON_parse = parseJson,
      toPrimitiveMessage = ''Cannot convert object to primitive value''\<rparr>"

section \<open>Text extraction (options.js)\<close>

text \<open>
  The inner loop of \<open>extractResponseText\<close>: the texts one entry \<open>c\<close> of a \<open>content\<close>
  array pushes, and the texts of all entries of one \<open>item\<close> of \<open>output\<close>.
\<close>

definition contentEntryTexts :: "jsval \<Rightarrow> string list" where
  "contentEntryTexts c =
     (if \<not> truthy c then []
      else if \<not> typeofObject c then []
      else
        (if getProp c ''type'' = JStr ''output_text'' \<and> isString (getProp c ''text'')
         then [strOf (getProp c ''text'')] else []) @
        (if getProp c ''type'' = JStr ''text'' \<and> isString (getProp c ''text'')
         then [strOf (getProp c ''text'')] else []))"

definition outputItemTexts :: "jsval \<Rightarrow> string list" where
  "outputItemTexts item =
     (case getProp item ''content'' of
        JArr contents \<Rightarrow> concat (map contentEntryTexts contents)
      | _ \<Rightarrow> [])"

text \<open>\<open>extractResponseText(data)\<close>. The result is a value: the last branch returns
  whatever the document holds at \<open>choices[0].message.content\<close> or \<open>choices[0].text\<close>.\<close>

definition extractResponseText :: "jsval \<Rightarrow> jsval" where
  "extractResponseText data =
     (if \<not> truthy data then JStr []
      else if \<not> typeofObject data then JStr []
      else if isString (getProp data ''output_text'') then getProp data ''output_text''
      else
        let output = (case getProp data ''output'' of JArr items \<Rightarrow> items | _ \<Rightarrow> []);
            chunks = concat (map outputItemTexts output)
        in if chunks \<noteq> [] then JStr (concat chunks)
           else
             nullish (getProp (getProp (index0 (getProp data ''choices'')) ''message'') ''content'')
               (nullish (getProp (index0 (getProp data ''choices'')) ''text'') (JStr [])))"

text \<open>\<open>extractStreamDelta(payload)\<close>.\<close>

definition extractStreamDelta :: "jsval \<Rightarrow> string" where
  "extractStreamDelta payload =
     (if \<not> truthy payload then []
      else if \<not> typeofObject payload then []
      else if getProp payload ''type'' = JStr ''response.output_text.delta''
              \<and> isString (getProp payload ''delta'')
      then strOf (getProp payload ''delta'')
      else
        let maybeText =
              nullish (getProp (getProp payload ''delta'') ''content'')
                (nullish (getProp (getProp (index0 (getProp payload ''choices'')) ''delta'') ''content'')
                  (nullish (getProp (getProp (index0 (getProp payload ''choices'')) ''delta'') ''text'')
                    (JStr [])))
        in if isString maybeText then strOf maybeText else [])"

section \<open>The stream decoder (options.js, readSseTextStream)\<close>

text \<open>The variables the closure \<open>flushEventBlock\<close> writes.\<close>

record accumulator =
  textChunks :: "string list"
  doneText :: string
  completedResponse :: jsval

definition initialAccumulator :: accumulator where
  "initialAccumulator = \<lparr>textChunks = [], doneText = [], completedResponse = JNull\<rparr>"

text \<open>The data lines of a block: \<open>line.slice(5).trimStart()\<close> of every line that starts
  with \<open>data:\<close>.\<close>

definition dataLinesOf :: "string \<Rightarrow> string list" where
  "dataLinesOf block =
     map (\<lambda>line. trimStart (drop 5 line))
       (filter (\<lambda>line. startsWith line ''data:'') (splitLines block))"

text \<open>\<open>flushEventBlock(block)\<close>: the accumulator after the block, or the error thrown.\<close>

definition flushEventBlock :: "host \<Rightarrow> accumulator \<Rightarrow> string \<Rightarrow> thrown + accumulator" where
  "flushEventBlock h st block =
     (let dataLines = dataLinesOf block in
      if dataLines = [] then Inr st
      else
        let dataStr = trim (join [LF] dataLines) in
        if dataStr = [] then Inr st
        else if dataStr = ''[DONE]'' then Inr st
        else
          (case JSON_parse h dataStr of
             None \<Rightarrow> Inr (st\<lparr>textChunks := textChunks st @ [dataStr]\<rparr>)
           | Some payload \<Rightarrow>
               if getProp payload ''type'' = JStr ''response.completed''
                  \<and> truthy (getProp payload ''response'')
               then Inr (st\<lparr>completedResponse := getProp payload ''response''\<rparr>)
               else if getProp payload ''type'' = JStr ''response.output_text.done''
                       \<and> isString (getProp payload ''text'')
               then Inr (st\<lparr>doneText := strOf (getProp payload ''text'')\<rparr>)
               else if getProp payload ''type'' = JStr ''response.error''
               then
                 (let msg = getProp (getProp payload ''error'') ''message'' in
                  Inl (newError
                        (if isString msg \<and> trim (strOf msg) \<noteq> [] then strOf msg
                         else ''Response error.'')))
               else
                 (let delta = extractStreamDelta payload;
                      st1 = (if delta \<noteq> [] then st\<lparr>textChunks := textChunks st @ [delta]\<rparr>
                             else st)
                  in if truthy (getProp payload ''response'')
                        \<and> typeofObject (getProp payload ''response'')
                     then Inr (st1\<lparr>completedResponse := getProp payload ''response''\<rparr>)
                     else Inr st1)))"

lemma indexOf_bound: "indexOf s p = Some i \<Longrightarrow> i + length p \<le> length s"
proof (induction s arbitrary: i)
  case Nil
  then show ?case by (simp split: if_splits)
next
  case (Cons c cs)
  show ?case
  proof (cases "prefix p (c # cs)")
    case True
    with Cons.prems have "i = 0" by simp
    with True show ?thesis using prefix_length_le by fastforce
  next
    case False
    with Cons.prems obtain j where "indexOf cs p = Some j" and "i = Suc j" by auto
    with Cons.IH show ?thesis by simp
  qed
qed

text \<open>
  The inner loop: while the buffer holds the separator \<open>"\n\n"\<close>, cut the block before
  it, keep what follows it, and flush the block. The result is the accumulator with the
  rest of the buffer, or the error a block threw.
\<close>

function drainBlocks :: "host \<Rightarrow> accumulator \<Rightarrow> string \<Rightarrow> thrown + (accumulator \<times> string)" where
  "drainBlocks h st buffer =
     (case indexOf buffer [LF, LF] of
        None \<Rightarrow> Inr (st, buffer)
      | Some sepIndex \<Rightarrow>
          (case flushEventBlock h st (take sepIndex buffer) of
             Inl e \<Rightarrow> Inl e
           | Inr st' \<Rightarrow> drainBlocks h st' (drop (sepIndex + 2) buffer)))"
  by pat_completeness auto
termination
  by (relation "measure (\<lambda>(h, st, buffer). length buffer)") (auto dest: indexOf_bound)

declare drainBlocks.simps [simp del]

text \<open>
  The outer loop. The reads of the body reader are a list: \<open>Inr chunk\<close> is a read that
  delivers a chunk (as decoded text), \<open>Inl e\<close> a read that rejects with \<open>e\<close>, and the end
  of the list is the read that reports \<open>done\<close>.
\<close>

fun pumpReader ::
  "host \<Rightarrow> accumulator \<Rightarrow> string \<Rightarrow> (thrown + string) list \<Rightarrow> thrown + (accumulator \<times> string)" where
  "pumpReader h st buffer reads =
     (case drainBlocks h st buffer of
        Inl e \<Rightarrow> Inl e
      | Inr (st', buffer') \<Rightarrow>
          (case reads of
             [] \<Rightarrow> Inr (st', buffer')
           | Inl e # rest \<Rightarrow> Inl e
           | Inr decoded # rest \<Rightarrow>
               pumpReader h st' (buffer' @ normalizeNewlines decoded) rest))"

declare pumpReader.simps [simp del]

text \<open>Everything before the resolution of the final text: both loops, and the flush of
  what is left in the buffer when it is not blank.\<close>

definition decodeStream ::
  "host \<Rightarrow> (thrown + string) list \<Rightarrow> string \<Rightarrow> thrown + accumulator" where
  "decodeStream h reads initialBuffer =
     (case pumpReader h initialAccumulator initialBuffer reads of
        Inl e \<Rightarrow> Inl e
      | Inr (st, buffer) \<Rightarrow>
          if trim buffer \<noteq> [] then flushEventBlock h st buffer else Inr st)"

text \<open>The last lines of \<open>readSseTextStream\<close>: the text it returns for an accumulator.\<close>

definition resolveFinalText :: "host \<Rightarrow> accumulator \<Rightarrow> thrown + string" where
  "resolveFinalText h st =
     (let streamedText = concat (textChunks st) in
      if trim (doneText st) \<noteq> [] \<and> length (doneText st) \<ge> length streamedText
      then Inr (doneText st)
      else if trim streamedText \<noteq> [] then Inr streamedText
      else if trim (doneText st) \<noteq> [] then Inr (doneText st)
      else stringOrEmpty h (extractResponseText (completedResponse st)))"

definition readSseTextStream ::
  "host \<Rightarrow> (thrown + string) list \<Rightarrow> string \<Rightarrow> thrown + string" where
  "readSseTextStream h reads initialBuffer =
     (case decodeStream h reads initialBuffer of
        Inl e \<Rightarrow> Inl e
      | Inr st \<Rightarrow> resolveFinalText h st)"

section \<open>Reading a response body (options.js, readResponseText)\<close>

definition looksLikeJson :: "string \<Rightarrow> bool" where
  "looksLikeJson trimmed = (startsWith trimmed ''{'' \<or> startsWith trimmed ''['')"

definition looksLikeSse :: "string \<Rightarrow> string \<Rightarrow> bool" where
  "looksLikeSse trimmed normalizedFirst =
     (startsWith trimmed ''data:'' \<or> startsWith trimmed ''event:'' \<or> startsWith trimmed '':''
      \<or> includesStr normalizedFirst (LF # ''data:'')
      \<or> includesStr normalizedFirst (LF # ''event:''))"

text \<open>The two modes of reading, and the mode the two tests of the source choose for a
  first chunk: the event-stream path is taken when \<open>looksLikeSse && !looksLikeJson\<close>.\<close>

datatype mode = JsonMode | EventStreamMode

definition sniffMode :: "string \<Rightarrow> mode" where
  "sniffMode firstChunk =
     (let normalizedFirst = normalizeNewlines firstChunk;
          trimmed = trimStart normalizedFirst
      in if looksLikeSse trimmed normalizedFirst \<and> \<not> looksLikeJson trimmed
         then EventStreamMode else JsonMode)"

text \<open>The loop that buffers the rest of the body: \<open>all += decoder.decode(value)\<close>.\<close>

fun readRemaining :: "string \<Rightarrow> (thrown + string) list \<Rightarrow> thrown + string" where
  "readRemaining all [] = Inr all"
| "readRemaining all (Inl e # rest) = Inl e"
| "readRemaining all (Inr decoded # rest) = readRemaining (all @ decoded) rest"

text \<open>
  \<open>readResponseText(res)\<close>, from the body of the response: \<open>None\<close> is a missing body,
  otherwise the reads of its reader. The result is a value, since the JSON path returns
  what \<open>extractResponseText\<close> returns.
\<close>

definition readResponseText :: "host \<Rightarrow> (thrown + string) list option \<Rightarrow> thrown + jsval" where
  "readResponseText h body =
     (case body of
        None \<Rightarrow> Inl (newError ''Missing response body.'')
      | Some reads \<Rightarrow>
          (case reads of
             Inl e # rest \<Rightarrow> Inl e
           | _ \<Rightarrow>
               let firstDone = (reads = []);
                   firstChunk = (case reads of Inr decoded # rest \<Rightarrow> decoded | _ \<Rightarrow> []);
                   normalizedFirst = normalizeNewlines firstChunk;
                   trimmed = trimStart normalizedFirst
               in if \<not> firstDone \<and> looksLikeSse trimmed normalizedFirst \<and> \<not> looksLikeJson trimmed
                  then
                    (case readSseTextStream h (tl reads) normalizedFirst of
                       Inl e \<Rightarrow> Inl e
                     | Inr t \<Rightarrow> Inr (JStr t))
                  else
                    (case (if \<not> firstDone then readRemaining normalizedFirst (tl reads)
                           else Inr normalizedFirst) of
                       Inl e \<Rightarrow> Inl e
                     | Inr all \<Rightarrow>
                         if looksLikeSse trimmed normalizedFirst \<and> \<not> looksLikeJson trimmed
                         then
                           (case readSseTextStream h [Inr all] [] of
                              Inl e \<Rightarrow> Inl e
                            | Inr t \<Rightarrow> Inr (JStr t))
                         else
                           (case JSON_parse h all of
                              None \<Rightarrow> Inl (newError ''Invalid JSON response from API.'')
                            | Some data \<Rightarrow> Inr (extractResponseText data)))))"

text \<open>The last lines of \<open>readResponseText\<close> on their own: the whole text parsed as one
  JSON document, and the text extracted from it.\<close>

definition parseWholeDocument :: "host \<Rightarrow> string \<Rightarrow> thrown + jsval" where
  "parseWholeDocument h all =
     (case JSON_parse h all of
        None \<Rightarrow> Inl (newError ''Invalid JSON response from API.'')
      | Some data \<Rightarrow> Inr (extractResponseText data))"

section \<open>The mode sniffer in the words of the specification\<close>

text \<open>
  The classification as the specification words it, for comparison with \<open>sniffMode\<close>:
  JSON when the trimmed text starts with \<open>{\<close> or \<open>[\<close>; else event stream when the trimmed
  text starts with a field prefix or some line of the text begins with one of
  \<open>linePrefixes\<close>; else JSON.
\<close>

definition fieldPrefixes :: "string list" where
  "fieldPrefixes = [''data:'', ''event:'', '':'']"

definition sniffByLines :: "string list \<Rightarrow> string \<Rightarrow> mode" where
  "sniffByLines linePrefixes text =
     (let trimmed = trimStart text in
      if startsWith trimmed ''{'' \<or> startsWith trimmed ''['' then JsonMode
      else if list_ex (startsWith trimmed) fieldPrefixes
              \<or> list_ex (\<lambda>line. list_ex (startsWith line) linePrefixes) (splitLines text)
      then EventStreamMode
      else JsonMode)"

section \<open>The transport retrier (options.js, fetchWithRetry)\<close>

text \<open>
  How one call of \<open>fetch\<close> settles: it resolves with a response, or it rejects with a
  thrown value while \<open>options.signal.aborted\<close> has the given value. The transport is the
  function that gives the settlement of the call number \<open>attempt\<close>, counted from 0.
\<close>

datatype 'r settled = Resolves 'r | Rejects thrown bool

text \<open>What a run of the retrier did: its result, the number of calls of \<open>fetch\<close>, and the
  delays handed to \<open>setTimeout\<close>, in order.\<close>

record 'r retryRun =
  outcome :: "thrown + 'r"
  calls :: nat
  sleeps :: "int list"

text \<open>\<open>sleep(ms)\<close> waits \<open>Math.max(0, Number(ms) || 0)\<close> milliseconds.\<close>

definition sleepMs :: "int \<Rightarrow> int" where
  "sleepMs ms = max 0 ms"

text \<open>\<open>err?.name\<close>, when it is a string.\<close>

fun errName :: "thrown \<Rightarrow> string option" where
  "errName (ErrorObj n m) = Some n"
| "errName ThrownUndefined = None"

text \<open>The \<open>for\<close> loop with its variables \<open>attempt\<close> and \<open>lastError\<close>, and \<open>throw lastError\<close> after it.\<close>

function retryLoop ::
  "(nat \<Rightarrow> 'r settled) \<Rightarrow> int \<Rightarrow> nat \<Rightarrow> nat \<Rightarrow> thrown option \<Rightarrow> int list \<Rightarrow> 'r retryRun" where
  "retryLoop fetch retryDelayMs attemptCount attempt lastError slept =
     (if attempt < attemptCount then
        (case fetch attempt of
           Resolves res \<Rightarrow> \<lparr>outcome = Inr res, calls = attempt + 1, sleeps = slept\<rparr>
         | Rejects err aborted \<Rightarrow>
             if aborted \<or> errName err = Some ''AbortError''
             then \<lparr>outcome = Inl err, calls = attempt + 1, sleeps = slept\<rparr>
             else if attempt + 1 \<ge> attemptCount
             then \<lparr>outcome = Inl err, calls = attempt + 1, sleeps = slept\<rparr>
             else retryLoop fetch retryDelayMs attemptCount (attempt + 1) (Some err)
                    (slept @ [sleepMs (retryDelayMs * int (attempt + 1))]))
      else \<lparr>outcome = Inl (case lastError of Some e \<Rightarrow> e | None \<Rightarrow> ThrownUndefined),
             calls = attempt, sleeps = slept\<rparr>)"
  by pat_completeness auto
termination
  by (relation "measure (\<lambda>(fetch, retryDelayMs, attemptCount, attempt, lastError, slept).
                            attemptCount - attempt)") auto

declare retryLoop.simps [simp del]

text \<open>\<open>fetchWithRetry(url, options, {retries, retryDelayMs})\<close>; \<open>retries\<close> is an integer,
  so \<open>Number.isFinite(retries)\<close> holds.\<close>

definition fetchWithRetry :: "(nat \<Rightarrow> 'r settled) \<Rightarrow> int \<Rightarrow> int \<Rightarrow> 'r retryRun" where
  "fetchWithRetry fetch retries retryDelayMs =
     retryLoop fetch retryDelayMs (nat (max 0 retries) + 1) 0 None []"

text \<open>
  The two kinds of rejection the \<open>catch\<close> block tells apart: a cancellation
  (\<open>options.signal.aborted\<close> is set or the error is named \<open>AbortError\<close>) and any other
  failure of the transport; and what a call that settles gives the caller of \<open>fetch\<close>.
\<close>

fun cancelledCall :: "'r settled \<Rightarrow> bool" where
  "cancelledCall (Rejects err signalAborted) = (signalAborted \<or> errName err = Some ''AbortError'')"
| "cancelledCall (Resolves res) = False"

fun transportFailure :: "'r settled \<Rightarrow> bool" where
  "transportFailure (Rejects err signalAborted) = (\<not> (signalAborted \<or> errName err = Some ''AbortError''))"
| "transportFailure (Resolves res) = False"

fun settledResult :: "'r settled \<Rightarrow> thrown + 'r" where
  "settledResult (Resolves res) = Inr res"
| "settledResult (Rejects err signalAborted) = Inl err"

section \<open>The registry of requests in flight (options.js, inflightChats)\<close>

text \<open>
  The map \<open>inflightChats\<close> from request identifiers to abort controllers. A controller is
  known by the number of its creation; \<open>abortedControllers\<close> holds those whose \<open>abort()\<close>
  was called.
\<close>

record registry =
  inflightChats :: "string \<rightharpoonup> nat"
  abortedControllers :: "nat set"
  nextController :: nat

record cancelReply =
  ok :: bool
  aborted :: bool

text \<open>The handler of a \<open>CANCEL_CHAT\<close> message, from \<open>message.requestId\<close>.\<close>

definition cancelChat :: "registry \<Rightarrow> jsval \<Rightarrow> registry \<times> cancelReply" where
  "cancelChat st messageRequestId =
     (let requestId = (if isString messageRequestId then strOf messageRequestId else [])
      in case inflightChats st requestId of
           Some controller \<Rightarrow>
             (st\<lparr>abortedControllers := insert controller (abortedControllers st),
                 inflightChats := (inflightChats st)(requestId := None)\<rparr>,
              \<lparr>ok = True, aborted = True\<rparr>)
         | None \<Rightarrow> (st, \<lparr>ok = True, aborted = False\<rparr>))"

text \<open>The start of the handler of a \<open>CHAT\<close> message: the request identifier (the
  message's own when it is a string that is not blank, else the one \<open>makeRequestId()\<close>
  made) and the registration of a new controller under it.\<close>

definition chatRequestId :: "jsval \<Rightarrow> string \<Rightarrow> string" where
  "chatRequestId messageRequestId made =
     (if isString messageRequestId \<and> trim (strOf messageRequestId) \<noteq> []
      then trim (strOf messageRequestId) else made)"

definition chatRegister :: "registry \<Rightarrow> string \<Rightarrow> registry" where
  "chatRegister st requestId =
     st\<lparr>inflightChats := (inflightChats st)(requestId \<mapsto> nextController st),
        nextController := nextController st + 1\<rparr>"

text \<open>The \<open>finally\<close> block of the handler: \<open>inflightChats.delete(requestId)\<close>.\<close>

definition chatFinally :: "registry \<Rightarrow> string \<Rightarrow> registry" where
  "chatFinally st requestId = st\<lparr>inflightChats := (inflightChats st)(requestId := None)\<rparr>"

text \<open>Whether a step from one registry to the next removed the entry of a request: 1 when
  the entry was there before and is gone after, else 0.\<close>

definition entryRemoved :: "registry \<Rightarrow> registry \<Rightarrow> string \<Rightarrow> nat" where
  "entryRemoved before after requestId =
     (if inflightChats before requestId \<noteq> None \<and> inflightChats after requestId = None
      then 1 else 0)"

section \<open>The chat request (options.js, the CHAT handler)\<close>

text \<open>The configuration \<open>loadConfig()\<close> returns, as far as the handler reads it before
  the call, and the response of \<open>fetch\<close>.\<close>

record config =
  apiUrl :: string
  token :: string
  model :: string

record httpResponse =
  resOk :: bool
  resStatus :: nat
  resStatusText :: string
  resBody :: "(thrown + string) list option"

text \<open>What the handler passes to \<open>sendResponse\<close>: \<open>{ok: true, content}\<close>,
  \<open>{ok: false, error}\<close>, or \<open>{ok: false, cancelled: true, error: "Cancelled."}\<close>.\<close>

datatype chatReply = Content string | Failed string | Cancelled

text \<open>\<open>res.text()\<close>.\<close>

definition resText :: "httpResponse \<Rightarrow> thrown + string" where
  "resText res = (case resBody res of None \<Rightarrow> Inr [] | Some reads \<Rightarrow> readRemaining [] reads)"

text \<open>
  The \<open>try\<close> block, from the result of \<open>loadConfig()\<close> and the transport: the reply it
  sends, or the value it throws. The request itself (\<open>toResponsesInput\<close>, the headers,
  \<open>JSON.stringify\<close>) is not part of the model; the transport stands for what the
  endpoint does with it.
\<close>

definition chatTry ::
  "host \<Rightarrow> thrown + config \<Rightarrow> (nat \<Rightarrow> httpResponse settled) \<Rightarrow> thrown + chatReply" where
  "chatTry h loaded fetch =
     (case loaded of
        Inl e \<Rightarrow> Inl e
      | Inr cfg \<Rightarrow>
          if trim (apiUrl cfg) = [] then Inl (newError ''Missing API URL (internal error).'')
          else if token cfg = [] then Inl (newError ''Missing API token. Set it in Options.'')
          else if model cfg = [] then Inl (newError ''Missing model. Set it in Options.'')
          else
            (case outcome (fetchWithRetry fetch 1 350) of
               Inl e \<Rightarrow> Inl e
             | Inr res \<Rightarrow>
                 if \<not> resOk res then
                   (case resText res of
                      Inl e \<Rightarrow> Inl e
                    | Inr text \<Rightarrow>
                        let msg = (case JSON_parse h text of
                                     None \<Rightarrow> JUndefined
                                   | Some maybe \<Rightarrow> getProp (getProp maybe ''error'') ''message'')
                        in if isString msg \<and> trim (strOf msg) \<noteq> []
                           then Inr (Failed (''HTTP '' @ decimal (resStatus res) @ '': '' @ strOf msg))
                           else Inr (Failed (''HTTP '' @ decimal (resStatus res) @ '': '' @
                                             (if text \<noteq> [] then text else resStatusText res))))
                 else
                   (case readResponseText h (resBody res) of
                      Inl e \<Rightarrow> Inl e
                    | Inr content \<Rightarrow>
                        (case stringOrEmpty h content of
                           Inl e \<Rightarrow> Inl e
                         | Inr s \<Rightarrow> Inr (Content s)))))"

text \<open>\<open>String(err?.message || "")\<close> and \<open>String(err || "")\<close>; the latter is
  \<open>Error.prototype.toString\<close> for an error object.\<close>

fun errMessage :: "thrown \<Rightarrow> string" where
  "errMessage (ErrorObj n m) = m"
| "errMessage ThrownUndefined = []"

fun errToString :: "thrown \<Rightarrow> string" where
  "errToString (ErrorObj n m) = (if n = [] then m else if m = [] then n else n @ '': '' @ m)"
| "errToString ThrownUndefined = []"

definition isAbort :: "thrown \<Rightarrow> bool" where
  "isAbort err =
     (errName err = Some ''AbortError''
      \<or> testCI ''aborted'' (errMessage err)
      \<or> testCI ''abort'' (errToString err))"

text \<open>The \<open>catch\<close> block.\<close>

definition chatCatch :: "thrown \<Rightarrow> chatReply" where
  "chatCatch err =
     (if isAbort err then Cancelled
      else
        let rawMsg = (if errMessage err \<noteq> [] then errMessage err else errToString err);
            msg = (if rawMsg = ''Failed to fetch''
                   then ''Network error: Failed to fetch (temporary connection issue or API unreachable).''
                   else rawMsg)
        in Failed (if msg \<noteq> [] then msg else ''Request failed.''))"

text \<open>The reply of the handler, and the handler's end: the reply together with the
  registry after the \<open>finally\<close> block.\<close>

definition chatRespond ::
  "host \<Rightarrow> thrown + config \<Rightarrow> (nat \<Rightarrow> httpResponse settled) \<Rightarrow> chatReply" where
  "chatRespond h loaded fetch =
     (case chatTry h loaded fetch of Inl err \<Rightarrow> chatCatch err | Inr reply \<Rightarrow> reply)"

definition chatSettle ::
  "host \<Rightarrow> registry \<Rightarrow> string \<Rightarrow> thrown + config \<Rightarrow> (nat \<Rightarrow> httpResponse settled)
     \<Rightarrow> registry \<times> chatReply" where
  "chatSettle h st requestId loaded fetch =
     (chatFinally st requestId, chatRespond h loaded fetch)"

section \<open>Inputs of the examples\<close>

text \<open>Two deltas, \<open>Hel\<close> and \<open>lo\<close>, then the done-text \<open>Hello\<close>.\<close>

definition helloStream :: string where
  \<open>helloStream =
     ''data: {"type":"response.output_text.delta","delta":"Hel"}'' @ [LF, LF] @
     ''data: {"type":"response.output_text.delta","delta":"lo"}'' @ [LF, LF] @
     ''data: {"type":"response.output_text.done","text":"Hello"}'' @ [LF, LF]\<close>

text \<open>A single event whose done-text is one space.\<close>

definition blankDoneStream :: string where
  \<open>blankDoneStream = ''data: {"type":"response.output_text.done","text":" "}'' @ [LF, LF]\<close>

text \<open>The bytes \<open>data: a\r\ndata: b\r\n\r\n\<close>: one event with two data lines, its lines
  ended by CR LF. They are cut after the first CR.\<close>

definition crlfHead :: string where
  "crlfHead = ''data: a'' @ [CR]"

definition crlfTail :: string where
  "crlfTail = [LF] @ ''data: b'' @ [CR, LF, CR, LF]"

text \<open>A transport whose every call resolves with the same response, a configuration
  that passes the checks of the handler, and a response with status 200.\<close>

fun serve :: "httpResponse \<Rightarrow> nat \<Rightarrow> httpResponse settled" where
  "serve res attempt = Resolves res"

definition exampleConfig :: config where
  "exampleConfig =
     \<lparr>apiUrl = ''https://api.openai.com/v1/responses'', token = ''sk-test'', model = ''gpt-5.2''\<rparr>"

definition okResponse :: "(thrown + string) list \<Rightarrow> httpResponse" where
  "okResponse reads =
     \<lparr>resOk = True, resStatus = 200, resStatusText = ''OK'', resBody = Some reads\<rparr>"

text \<open>An error event, followed by a delta that is never read; the same with a message
  that holds the word \<open>aborted\<close>.\<close>

definition rateLimitedBlock :: string where
  \<open>rateLimitedBlock = ''data: {"type":"response.error","error":{"message":"rate limited"}}''\<close>

definition rateLimitedPayload :: jsval where
  "rateLimitedPayload =
     JObj [(''type'', JStr ''response.error''),
           (''error'', JObj [(''message'', JStr ''rate limited'')])]"

definition lateDelta :: string where
  \<open>lateDelta = ''data: {"type":"response.output_text.delta","delta":"late"}'' @ [LF, LF]\<close>

definition abortedErrorStream :: string where
  \<open>abortedErrorStream =
     ''data: {"type":"response.error","error":{"message":"upstream aborted"}}'' @ [LF, LF]\<close>

text \<open>A response with status 500 whose body is a structured error.\<close>

definition abortedHttpError :: httpResponse where
  \<open>abortedHttpError =
     \<lparr>resOk = False, resStatus = 500, resStatusText = ''Internal Server Error'',
      resBody = Some [Inr ''{"error":{"message":"upstream aborted"}}'']\<rparr>\<close>

text \<open>A body that is a comment line of an event stream and nothing else.\<close>

definition pingBody :: string where
  "pingBody = '': ping'' @ [LF, LF]"

text \<open>A body of plain text, and the same text as a JSON string.\<close>

definition plainTextBody :: string where
  "plainTextBody = ''hello''"

definition quotedTextBody :: string where
  "quotedTextBody = [DQ] @ ''hello'' @ [DQ]"

text \<open>A first chunk whose second line begins with a colon.\<close>

definition colonLineChunk :: string where
  "colonLineChunk = ''x'' @ [LF] @ '':y''"

text \<open>A transport that fails twice and then succeeds.\<close>

fun failTwiceThenServe :: "nat \<Rightarrow> httpResponse settled" where
  "failTwiceThenServe attempt =
     (if attempt = 0 then Rejects (ErrorObj ''TypeError'' ''Failed to fetch'') False
      else if attempt = 1 then Rejects (ErrorObj ''TypeError'' ''network down'') False
      else Resolves (okResponse []))"

text \<open>A registry with one request in flight.\<close>

definition oneChatInFlight :: registry where
  "oneChatInFlight =
     \<lparr>inflightChats = Map.empty(''req-1'' \<mapsto> 0), abortedControllers = {}, nextController = 1\<rparr>"

section \<open>Theorems\<close>

subsection \<open>Steps of the decoder\<close>

lemma pumpReader_error_block:
  "indexOf buffer [LF, LF] = Some i \<Longrightarrow> flushEventBlock h st (take i buffer) = Inl e
     \<Longrightarrow> pumpReader h st buffer reads = Inl e"
  by (subst pumpReader.simps, subst drainBlocks.simps) simp

lemma pumpReader_next_block:
  "indexOf buffer [LF, LF] = Some i \<Longrightarrow> flushEventBlock h st (take i buffer) = Inr st'
     \<Longrightarrow> pumpReader h st buffer reads = pumpReader h st' (drop (i + 2) buffer) reads"
  by (subst pumpReader.simps, subst drainBlocks.simps, simp, subst (2) pumpReader.simps, simp)

lemma flushEventBlock_error_event:
  assumes "dataLinesOf block \<noteq> []"
      and "trim (join [LF] (dataLinesOf block)) \<noteq> []"
      and "trim (join [LF] (dataLinesOf block)) \<noteq> ''[DONE]''"
      and "JSON_parse h (trim (join [LF] (dataLinesOf block))) = Some payload"
      and "getProp payload ''type'' = JStr ''response.error''"
  shows "flushEventBlock h st block =
           Inl (newError (if isString (getProp (getProp payload ''error'') ''message'')
                             \<and> trim (strOf (getProp (getProp payload ''error'') ''message'')) \<noteq> []
                          then strOf (getProp (getProp payload ''error'') ''message'')
                          else ''Response error.''))"
  using assms by (simp add: flushEventBlock_def Let_def)

lemma readResponseText_event_stream:
  "sniffMode first = EventStreamMode \<Longrightarrow>
   readResponseText h (Some (Inr first # rest)) =
     (case readSseTextStream h rest (normalizeNewlines first) of
        Inl e \<Rightarrow> Inl e
      | Inr t \<Rightarrow> Inr (JStr t))"
  by (simp add: readResponseText_def sniffMode_def Let_def split: if_splits)

lemma readResponseText_json:
  "sniffMode first = JsonMode \<Longrightarrow> readRemaining (normalizeNewlines first) rest = Inr all \<Longrightarrow>
   readResponseText h (Some (Inr first # rest)) =
     (case JSON_parse h all of
        None \<Rightarrow> Inl (newError ''Invalid JSON response from API.'')
      | Some data \<Rightarrow> Inr (extractResponseText data))"
  by (auto simp add: readResponseText_def sniffMode_def Let_def split: if_splits)

subsection \<open>Tests for the word abort\<close>

lemma includesStr_iff: "includesStr s p \<longleftrightarrow> (\<exists>a b. s = a @ p @ b)"
proof (induction s)
  case Nil
  then show ?case by auto
next
  case (Cons c cs)
  show ?case
  proof
    assume "includesStr (c # cs) p"
    then consider "prefix p (c # cs)" | "includesStr cs p" by (auto split: if_splits)
    then show "\<exists>a b. c # cs = a @ p @ b"
    proof cases
      case 1
      then obtain b where "c # cs = p @ b" by (auto simp: prefix_def)
      then have "c # cs = [] @ p @ b" by simp
      then show ?thesis by blast
    next
      case 2
      with Cons.IH obtain a b where "cs = a @ p @ b" by auto
      then have "c # cs = (c # a) @ p @ b" by simp
      then show ?thesis by blast
    qed
  next
    assume "\<exists>a b. c # cs = a @ p @ b"
    then obtain a b where ab: "c # cs = a @ p @ b" by auto
    show "includesStr (c # cs) p"
    proof (cases a)
      case Nil
      with ab have "prefix p (c # cs)" by (simp add: prefix_def)
      then show ?thesis by simp
    next
      case (Cons x a')
      with ab have "cs = a' @ p @ b" by simp
      with Cons.IH have "includesStr cs p" by blast
      then show ?thesis by simp
    qed
  qed
qed

lemma includesStr_append_left: "includesStr s p \<Longrightarrow> includesStr (x @ s) p"
  unfolding includesStr_iff by (metis append.assoc)

lemma includesStr_shorter: "includesStr s (p @ q) \<Longrightarrow> includesStr s p"
  unfolding includesStr_iff by (metis append.assoc)

lemma testCI_append_left: "testCI p s \<Longrightarrow> testCI p (x @ s)"
  by (simp add: testCI_def includesStr_append_left)

lemma testCI_aborted_abort: "testCI ''aborted'' s \<Longrightarrow> testCI ''abort'' s"
proof -
  assume "testCI ''aborted'' s"
  then have "includesStr (map lowerASCII s) (''abort'' @ ''ed'')" by (simp add: testCI_def)
  then show ?thesis unfolding testCI_def by (rule includesStr_shorter)
qed

lemma testCI_message_toString: "testCI p (errMessage err) \<Longrightarrow> p \<noteq> [] \<Longrightarrow> testCI p (errToString err)"
proof (cases err)
  case (ErrorObj n m)
  assume a: "testCI p (errMessage err)" and p: "p \<noteq> []"
  from a ErrorObj have m: "testCI p m" by simp
  with p have "m \<noteq> []" by (auto simp: testCI_def)
  moreover from m have "testCI p (n @ '': '' @ m)"
    using testCI_append_left [of p m "n @ '': ''"] by simp
  ultimately show ?thesis using ErrorObj m by simp
next
  case ThrownUndefined
  assume "testCI p (errMessage err)" and "p \<noteq> []"
  with ThrownUndefined show ?thesis by (simp add: testCI_def)
qed

lemma isAbort_iff:
  "isAbort err \<longleftrightarrow>
     errName err = Some ''AbortError'' \<or> testCI ''abort'' (errMessage err)
       \<or> testCI ''abort'' (errToString err)"
proof -
  have "testCI ''aborted'' (errMessage err) \<Longrightarrow> testCI ''abort'' (errToString err)"
    using testCI_aborted_abort testCI_message_toString by blast
  moreover have "testCI ''abort'' (errMessage err) \<Longrightarrow> testCI ''abort'' (errToString err)"
    using testCI_message_toString by blast
  ultimately show ?thesis unfolding isAbort_def by blast
qed

lemma network_message_no_abort:
  "\<not> testCI ''abort''
       ''Network error: Failed to fetch (temporary connection issue or API unreachable).''"
  by code_simp

lemma request_failed_no_abort: "\<not> testCI ''abort'' ''Request failed.''"
  by code_simp

lemma chatCatch_Failed_no_abort:
  assumes "chatCatch err = Failed msg"
  shows "\<not> testCI ''abort'' msg"
proof -
  from assms have na: "\<not> isAbort err" by (auto simp: chatCatch_def split: if_splits)
  then have n1: "\<not> testCI ''abort'' (errMessage err)" and n2: "\<not> testCI ''abort'' (errToString err)"
    by (simp_all add: isAbort_iff)
  from assms na
  have "msg = errMessage err \<or> msg = errToString err
        \<or> msg = ''Network error: Failed to fetch (temporary connection issue or API unreachable).''
        \<or> msg = ''Request failed.''"
    by (auto simp: chatCatch_def Let_def split: if_splits)
  with n1 n2 network_message_no_abort request_failed_no_abort show ?thesis by blast
qed

subsection \<open>Blank blocks, thrown errors and the reply\<close>

lemma splitLines_chars: "l \<in> set (splitLines s) \<Longrightarrow> set l \<subseteq> set s"
proof (induction s arbitrary: l)
  case Nil
  then show ?case by simp
next
  case (Cons c cs)
  show ?case
  proof (cases "c = LF")
    case True
    with Cons.prems have "l = [] \<or> l \<in> set (splitLines cs)" by simp
    with Cons.IH show ?thesis by auto
  next
    case False
    show ?thesis
    proof (cases "splitLines cs")
      case Nil
      with False Cons.prems show ?thesis by simp
    next
      case (Cons line rest)
      with False Cons.prems have "l = c # line \<or> l \<in> set rest" by simp
      moreover have "set line \<subseteq> set cs" using Cons.IH [of line] Cons by simp
      moreover have "l \<in> set rest \<Longrightarrow> set l \<subseteq> set cs" using Cons.IH [of l] Cons by simp
      ultimately show ?thesis by auto
    qed
  qed
qed

lemma trim_Nil_iff: "trim s = [] \<longleftrightarrow> (\<forall>c \<in> set s. isWhiteSpace c)"
proof
  assume "trim s = []"
  then have "dropWhile isWhiteSpace (rev (dropWhile isWhiteSpace s)) = []"
    by (simp add: trim_def trimEnd_def trimStart_def)
  then have a: "\<forall>c \<in> set (dropWhile isWhiteSpace s). isWhiteSpace c"
    by (simp add: dropWhile_eq_Nil_conv)
  show "\<forall>c \<in> set s. isWhiteSpace c"
  proof (rule ccontr)
    assume "\<not> (\<forall>c \<in> set s. isWhiteSpace c)"
    then have "dropWhile isWhiteSpace s \<noteq> []" by (simp add: dropWhile_eq_Nil_conv)
    then have "\<not> isWhiteSpace (hd (dropWhile isWhiteSpace s))" by (rule hd_dropWhile)
    moreover have "hd (dropWhile isWhiteSpace s) \<in> set (dropWhile isWhiteSpace s)"
      using \<open>dropWhile isWhiteSpace s \<noteq> []\<close> by simp
    ultimately show False using a by blast
  qed
next
  assume "\<forall>c \<in> set s. isWhiteSpace c"
  then show "trim s = []"
    by (auto simp: trim_def trimEnd_def trimStart_def dest: set_dropWhileD)
qed

lemma blank_no_data_lines: "trim block = [] \<Longrightarrow> dataLinesOf block = []"
proof (rule ccontr)
  assume b: "trim block = []" and "dataLinesOf block \<noteq> []"
  then obtain l where l: "l \<in> set (splitLines block)" and p: "prefix ''data:'' l"
    by (auto simp: dataLinesOf_def startsWith_def filter_empty_conv)
  from p have "CHR ''d'' \<in> set l" by (auto simp: prefix_def)
  with splitLines_chars [OF l] have "CHR ''d'' \<in> set block" by blast
  with b have "isWhiteSpace (CHR ''d'')" by (simp add: trim_Nil_iff)
  then show False by (simp add: isWhiteSpace_def)
qed

lemma flushEventBlock_blank: "trim block = [] \<Longrightarrow> flushEventBlock h st block = Inr st"
  by (simp add: flushEventBlock_def blank_no_data_lines)

lemma decodeStream_flush:
  "pumpReader h initialAccumulator initialBuffer reads = Inr (st, buffer)
     \<Longrightarrow> decodeStream h reads initialBuffer = flushEventBlock h st buffer"
  by (simp add: decodeStream_def flushEventBlock_blank)

lemma abort_after_Error_prefix:
  "testCI ''abort'' (''Error: '' @ m) = testCI ''abort'' m"
  by (simp add: testCI_def lowerASCII_def)

lemma chatCatch_newError:
  assumes "m \<noteq> []"
  shows "chatCatch (newError m) =
           (if testCI ''abort'' m then Cancelled
            else if m = ''Failed to fetch''
            then Failed ''Network error: Failed to fetch (temporary connection issue or API unreachable).''
            else Failed m)"
proof -
  have "isAbort (newError m) = testCI ''abort'' m"
    using assms abort_after_Error_prefix [of m]
    by (auto simp: isAbort_iff newError_def)
  then show ?thesis using assms by (simp add: chatCatch_def newError_def Let_def)
qed

lemma stringOrEmpty_JStr: "stringOrEmpty h (JStr t) = Inr t"
  by (simp add: stringOrEmpty_def)

lemma chatTry_resolved:
  assumes "trim (apiUrl cfg) \<noteq> []" and "token cfg \<noteq> []" and "model cfg \<noteq> []"
      and "outcome (fetchWithRetry fetch 1 350) = Inr res" and "resOk res"
  shows "chatTry h (Inr cfg) fetch =
           (case readResponseText h (resBody res) of
              Inl e \<Rightarrow> Inl e
            | Inr content \<Rightarrow>
                (case stringOrEmpty h content of Inl e \<Rightarrow> Inl e | Inr s \<Rightarrow> Inr (Content s)))"
  using assms by (simp add: chatTry_def)

lemma chatRespond_event_stream:
  assumes "trim (apiUrl cfg) \<noteq> []" and "token cfg \<noteq> []" and "model cfg \<noteq> []"
      and "outcome (fetchWithRetry fetch 1 350) = Inr res" and "resOk res"
      and "resBody res = Some (Inr first # rest)" and "sniffMode first = EventStreamMode"
  shows "chatRespond h (Inr cfg) fetch =
           (case readSseTextStream h rest (normalizeNewlines first) of
              Inl e \<Rightarrow> chatCatch e
            | Inr t \<Rightarrow> Content t)"
  using assms
  by (simp add: chatRespond_def chatTry_resolved readResponseText_event_stream
      stringOrEmpty_JStr split: sum.splits)

lemma readResponseText_json_whole:
  "sniffMode first = JsonMode \<Longrightarrow> readRemaining (normalizeNewlines first) rest = Inr all \<Longrightarrow>
   readResponseText h (Some (Inr first # rest)) = parseWholeDocument h all"
  by (simp add: readResponseText_json parseWholeDocument_def)

lemma extractResponseText_not_object:
  "\<not> (truthy data \<and> typeofObject data) \<Longrightarrow> extractResponseText data = JStr []"
  by (auto simp: extractResponseText_def)

lemma invalid_json_no_abort: "\<not> testCI ''abort'' ''Invalid JSON response from API.''"
  by code_simp

subsection \<open>Lines and their prefixes\<close>

lemma splitLines_not_Nil: "splitLines s \<noteq> []"
  by (induction s) (auto split: list.splits)

lemma first_line_prefix:
  "LF \<notin> set p \<Longrightarrow> prefix p (hd (splitLines s)) \<longleftrightarrow> prefix p s"
proof (induction s arbitrary: p)
  case Nil
  then show ?case by simp
next
  case (Cons c cs)
  show ?case
  proof (cases "c = LF")
    case True
    with Cons.prems show ?thesis by (cases p) auto
  next
    case False
    obtain line rest where lr: "splitLines cs = line # rest"
      using splitLines_not_Nil [of cs] by (cases "splitLines cs") auto
    show ?thesis
    proof (cases p)
      case Nil
      then show ?thesis by simp
    next
      case (Cons x p')
      with Cons.prems have "LF \<notin> set p'" by simp
      from Cons.IH [OF this] lr have "prefix p' line \<longleftrightarrow> prefix p' cs" by simp
      with False lr Cons show ?thesis by simp
    qed
  qed
qed

lemma later_line_prefix:
  "LF \<notin> set p \<Longrightarrow> list_ex (prefix p) (tl (splitLines s)) \<longleftrightarrow> includesStr s (LF # p)"
proof (induction s)
  case Nil
  then show ?case by simp
next
  case (Cons c cs)
  obtain line rest where lr: "splitLines cs = line # rest"
    using splitLines_not_Nil [of cs] by (cases "splitLines cs") auto
  show ?case
  proof (cases "c = LF")
    case True
    have "list_ex (prefix p) (splitLines cs)
            \<longleftrightarrow> prefix p (hd (splitLines cs)) \<or> list_ex (prefix p) (tl (splitLines cs))"
      using lr by simp
    with True Cons first_line_prefix [OF Cons.prems, of cs] show ?thesis by simp
  next
    case False
    with Cons lr show ?thesis by simp
  qed
qed

lemma line_prefix:
  assumes "LF \<notin> set p"
  shows "list_ex (\<lambda>line. startsWith line p) (splitLines s) \<longleftrightarrow> prefix p s \<or> includesStr s (LF # p)"
proof -
  obtain line rest where lr: "splitLines s = line # rest"
    using splitLines_not_Nil [of s] by (cases "splitLines s") auto
  then have "list_ex (prefix p) (splitLines s)
          \<longleftrightarrow> prefix p (hd (splitLines s)) \<or> list_ex (prefix p) (tl (splitLines s))"
    by simp
  with first_line_prefix [OF assms, of s] later_line_prefix [OF assms, of s]
  show ?thesis by (simp add: startsWith_def [abs_def])
qed

lemma trimStart_prefix_nonspace:
  "prefix p s \<Longrightarrow> p \<noteq> [] \<Longrightarrow> \<not> isWhiteSpace (hd p) \<Longrightarrow> prefix p (trimStart s)"
  by (cases p; cases s) (auto simp: trimStart_def)

subsection \<open>The retry loop\<close>

lemma retryLoop_skip:
  "attempt + k < n \<Longrightarrow>
   (\<forall>j. attempt \<le> j \<and> j < attempt + k \<longrightarrow> transportFailure (fetch j)) \<Longrightarrow>
   \<exists>le. retryLoop fetch d n attempt lastError slept =
          retryLoop fetch d n (attempt + k) le
            (slept @ map (\<lambda>i. sleepMs (d * int i)) [Suc attempt ..< Suc (attempt + k)])"
proof (induction k)
  case 0
  then show ?case by auto
next
  case (Suc k)
  then obtain le where le: "retryLoop fetch d n attempt lastError slept =
          retryLoop fetch d n (attempt + k) le
            (slept @ map (\<lambda>i. sleepMs (d * int i)) [Suc attempt ..< Suc (attempt + k)])"
    by force
  from Suc.prems have "transportFailure (fetch (attempt + k))" by simp
  then obtain e ab where e: "fetch (attempt + k) = Rejects e ab"
    and na: "\<not> ab" "errName e \<noteq> Some ''AbortError''"
    by (cases "fetch (attempt + k)") auto
  from Suc.prems have lt: "attempt + k < n" "\<not> n \<le> attempt + k + 1" by simp_all
  have "retryLoop fetch d n (attempt + k) le
            (slept @ map (\<lambda>i. sleepMs (d * int i)) [Suc attempt ..< Suc (attempt + k)])
        = retryLoop fetch d n (attempt + Suc k) (Some e)
            (slept @ map (\<lambda>i. sleepMs (d * int i)) [Suc attempt ..< Suc (attempt + Suc k)])"
    using e na lt by (subst retryLoop.simps) simp
  with le show ?case by metis
qed

lemma retryLoop_settle:
  assumes "a < n" and "\<forall>j<a. transportFailure (fetch j)"
      and "\<not> transportFailure (fetch a) \<or> a + 1 = n"
  shows "retryLoop fetch d n 0 None [] =
           \<lparr>outcome = settledResult (fetch a), calls = a + 1,
            sleeps = map (\<lambda>i. sleepMs (d * int i)) [1 ..< Suc a]\<rparr>"
proof -
  from retryLoop_skip [of 0 a n fetch d None "[]"] assms(1,2)
  obtain le where le: "retryLoop fetch d n 0 None [] =
      retryLoop fetch d n a le (map (\<lambda>i. sleepMs (d * int i)) [1 ..< Suc a])"
    by auto
  show ?thesis
  proof (cases "fetch a")
    case (Resolves res)
    with assms(1) le show ?thesis
      by (simp add: retryLoop.simps [of fetch d n a] del: upt_Suc)
  next
    case (Rejects e ab)
    show ?thesis
    proof (cases "ab \<or> errName e = Some ''AbortError''")
      case True
      with Rejects assms(1) le show ?thesis
        by (simp add: retryLoop.simps [of fetch d n a] del: upt_Suc)
    next
      case False
      with Rejects assms(3) have "n \<le> a + 1" by simp
      with False Rejects assms(1) le show ?thesis
        by (simp add: retryLoop.simps [of fetch d n a] del: upt_Suc)
    qed
  qed
qed

lemma settle_exists:
  fixes n :: nat and fetch :: "nat \<Rightarrow> 'r settled"
  assumes "0 < n"
  shows "\<exists>a<n. (\<forall>j<a. transportFailure (fetch j)) \<and> (\<not> transportFailure (fetch a) \<or> a + 1 = n)"
proof (cases "\<exists>j<n. \<not> transportFailure (fetch j)")
  case True
  then obtain j where j: "j < n" "\<not> transportFailure (fetch j)" by blast
  let ?a = "LEAST i. \<not> transportFailure (fetch i)"
  have "\<not> transportFailure (fetch ?a)"
    using j(2) by (rule LeastI [where P = "\<lambda>i. \<not> transportFailure (fetch i)"])
  moreover have "?a \<le> j"
    using j(2) by (rule Least_le [where P = "\<lambda>i. \<not> transportFailure (fetch i)"])
  moreover have "\<forall>i<?a. transportFailure (fetch i)" using not_less_Least by blast
  ultimately show ?thesis using j(1) by (metis le_less_trans)
next
  case False
  with assms have "n - 1 < n \<and> (\<forall>j<n - 1. transportFailure (fetch j)) \<and> (n - 1) + 1 = n"
    by auto
  then show ?thesis by blast
qed

lemma fetchWithRetry_settles:
  assumes "0 \<le> retries"
  shows "\<exists>a \<le> nat retries.
           (\<forall>j<a. transportFailure (fetch j))
           \<and> (\<not> transportFailure (fetch a) \<or> a = nat retries)
           \<and> fetchWithRetry fetch retries d =
               \<lparr>outcome = settledResult (fetch a), calls = a + 1,
                sleeps = map (\<lambda>i. sleepMs (d * int i)) [1 ..< Suc a]\<rparr>"
proof -
  from settle_exists [of "nat retries + 1" fetch]
  obtain a where a: "a < nat retries + 1" "\<forall>j<a. transportFailure (fetch j)"
    "\<not> transportFailure (fetch a) \<or> a + 1 = nat retries + 1"
    by auto
  from retryLoop_settle [OF a, of d] assms
  have "fetchWithRetry fetch retries d =
               \<lparr>outcome = settledResult (fetch a), calls = a + 1,
                sleeps = map (\<lambda>i. sleepMs (d * int i)) [1 ..< Suc a]\<rparr>"
    by (simp add: fetchWithRetry_def max_def)
  with a show ?thesis by auto
qed

lemma fetchWithRetry_at:
  assumes "0 \<le> retries" and "a \<le> nat retries" and "\<forall>j<a. transportFailure (fetch j)"
      and "\<not> transportFailure (fetch a) \<or> a = nat retries"
  shows "fetchWithRetry fetch retries d =
               \<lparr>outcome = settledResult (fetch a), calls = a + 1,
                sleeps = map (\<lambda>i. sleepMs (d * int i)) [1 ..< Suc a]\<rparr>"
proof -
  from assms have "a < nat retries + 1" and "\<not> transportFailure (fetch a) \<or> a + 1 = nat retries + 1"
    by auto
  from retryLoop_settle [OF this(1) assms(3) this(2), of d] assms(1)
  show ?thesis by (simp add: fetchWithRetry_def max_def)
qed

subsection \<open>Deleting from the registry\<close>

lemma delete_absent:
  "inflightChats st requestId = None \<Longrightarrow>
   st\<lparr>inflightChats := (inflightChats st)(requestId := None)\<rparr> = st"
proof -
  assume "inflightChats st requestId = None"
  then have "(inflightChats st)(requestId := None) = inflightChats st"
    by (simp add: fun_upd_idem)
  then show ?thesis by simp
qed

subsection \<open>Chunk boundaries\<close>

text \<open>
  The decoder normalises each chunk on its own. That agrees with normalising the whole
  text as long as no chunk boundary falls inside a CR LF pair, and then the decoder
  returns the same text for the chunks as for their concatenation delivered at once.
\<close>

lemma replaceCRLF_append:
  "\<not> (endsWithCR a \<and> startsWithLF b) \<Longrightarrow> replaceCRLF (a @ b) = replaceCRLF a @ replaceCRLF b"
proof (induction a rule: replaceCRLF.induct)
  case (1 x y zs)
  from "1.prems" have rest: "\<not> (endsWithCR zs \<and> startsWithLF b)"
    and rest': "\<not> (endsWithCR (y # zs) \<and> startsWithLF b)"
    by (auto simp: endsWithCR_def)
  show ?case
  proof (cases "x = CR \<and> y = LF")
    case True
    from "1.IH"(1) [OF True rest] True show ?thesis by simp
  next
    case False
    from "1.IH"(2) [OF False rest'] False show ?thesis by auto
  qed
qed ((cases b; auto simp: endsWithCR_def startsWithLF_def)+)

lemma normalizeNewlines_append:
  "\<not> (endsWithCR a \<and> startsWithLF b) \<Longrightarrow>
   normalizeNewlines (a @ b) = normalizeNewlines a @ normalizeNewlines b"
  by (simp add: normalizeNewlines_def replaceCR_def replaceCRLF_append)

lemma prefix_of_append_short:
  "prefix p (s @ t) \<Longrightarrow> length p \<le> length s \<Longrightarrow> prefix p s"
  by (auto simp: prefix_append)

lemma indexOf_append:
  "indexOf s p = Some i \<Longrightarrow> indexOf (s @ t) p = Some i"
proof (induction s arbitrary: i)
  case Nil
  then show ?case by (cases t) (auto split: if_splits)
next
  case (Cons c cs)
  show ?case
  proof (cases "prefix p (c # cs)")
    case True
    then have "prefix p ((c # cs) @ t)" by (rule prefix_prefix)
    with True Cons.prems show ?thesis by simp
  next
    case False
    with Cons.prems obtain j where j: "indexOf cs p = Some j" "i = Suc j" by auto
    from indexOf_bound [OF j(1)] have "length p \<le> length (c # cs)" by simp
    with False have "\<not> prefix p ((c # cs) @ t)"
      using prefix_of_append_short by blast
    with Cons.IH [OF j(1)] j(2) show ?thesis by simp
  qed
qed

lemma drainBlocks_append:
  "drainBlocks h st (buffer @ added) =
     (case drainBlocks h st buffer of
        Inl e \<Rightarrow> Inl e
      | Inr (st', buffer') \<Rightarrow> drainBlocks h st' (buffer' @ added))"
proof (induction h st buffer rule: drainBlocks.induct)
  case (1 h st buffer)
  show ?case
  proof (cases "indexOf buffer [LF, LF]")
    case None
    then have "drainBlocks h st buffer = Inr (st, buffer)"
      by (simp add: drainBlocks.simps [of h st buffer])
    then show ?thesis by simp
  next
    case (Some i)
    then have far: "indexOf (buffer @ added) [LF, LF] = Some i"
      by (rule indexOf_append)
    from indexOf_bound [OF Some] have len: "i + 2 \<le> length buffer" by simp
    then have cut: "take i (buffer @ added) = take i buffer"
      "drop (i + 2) (buffer @ added) = drop (i + 2) buffer @ added"
      by simp_all
    show ?thesis
    proof (cases "flushEventBlock h st (take i buffer)")
      case (Inl e)
      with Some far len show ?thesis
        by (simp add: drainBlocks.simps [of h st buffer] drainBlocks.simps [of h st "buffer @ added"])
    next
      case (Inr st1)
      from "1.IH" [OF Some Inr]
      have "drainBlocks h st1 (drop (i + 2) buffer @ added) =
        (case drainBlocks h st1 (drop (i + 2) buffer) of
           Inl e \<Rightarrow> Inl e
         | Inr (st', buffer') \<Rightarrow> drainBlocks h st' (buffer' @ added))" .
      with Some far len Inr show ?thesis
        by (simp add: drainBlocks.simps [of h st buffer] drainBlocks.simps [of h st "buffer @ added"])
    qed
  qed
qed

lemma drainBlocks_rest:
  "drainBlocks h st buffer = Inr (st', buffer') \<Longrightarrow> indexOf buffer' [LF, LF] = None"
proof (induction h st buffer rule: drainBlocks.induct)
  case (1 h st buffer)
  show ?case
  proof (cases "indexOf buffer [LF, LF]")
    case None
    with "1.prems" show ?thesis by (simp add: drainBlocks.simps [of h st buffer])
  next
    case (Some i)
    show ?thesis
    proof (cases "flushEventBlock h st (take i buffer)")
      case (Inl e)
      with Some "1.prems" show ?thesis by (simp add: drainBlocks.simps [of h st buffer])
    next
      case (Inr st1)
      with Some "1.prems" have "drainBlocks h st1 (drop (i + 2) buffer) = Inr (st', buffer')"
        by (simp add: drainBlocks.simps [of h st buffer])
      with "1.IH" [OF Some Inr] show ?thesis by simp
    qed
  qed
qed

lemma drainBlocks_again:
  "drainBlocks h st buffer = Inr (st', buffer') \<Longrightarrow> drainBlocks h st' buffer' = Inr (st', buffer')"
  using drainBlocks_rest [of h st buffer st' buffer']
  by (simp add: drainBlocks.simps [of h st' buffer'])

lemma pumpReader_drained:
  "drainBlocks h st buffer = Inr (st', buffer') \<Longrightarrow>
   pumpReader h st buffer reads = pumpReader h st' buffer' reads"
  using drainBlocks_again [of h st buffer st' buffer']
  by (simp add: pumpReader.simps [of h st buffer] pumpReader.simps [of h st' buffer'])

lemma pumpReader_two_chunks:
  assumes "\<not> (endsWithCR c1 \<and> startsWithLF c2)"
  shows "pumpReader h st buffer (Inr c1 # Inr c2 # reads) =
         pumpReader h st buffer (Inr (c1 @ c2) # reads)"
proof (cases "drainBlocks h st buffer")
  case (Inl e)
  then show ?thesis
    by (simp add: pumpReader.simps [of h st buffer])
next
  case (Inr r)
  obtain st1 b1 where r: "r = (st1, b1)" by (cases r)
  let ?n1 = "normalizeNewlines c1" and ?n2 = "normalizeNewlines c2"
  have left: "pumpReader h st buffer (Inr c1 # Inr c2 # reads) =
      pumpReader h st1 (b1 @ ?n1) (Inr c2 # reads)"
    using Inr r by (simp add: pumpReader.simps [of h st buffer])
  have right: "pumpReader h st buffer (Inr (c1 @ c2) # reads) =
      pumpReader h st1 (b1 @ ?n1 @ ?n2) reads"
    using Inr r normalizeNewlines_append [OF assms]
    by (simp add: pumpReader.simps [of h st buffer])
  have app: "drainBlocks h st1 (b1 @ ?n1 @ ?n2) =
     (case drainBlocks h st1 (b1 @ ?n1) of
        Inl e \<Rightarrow> Inl e
      | Inr (st', buffer') \<Rightarrow> drainBlocks h st' (buffer' @ ?n2))"
    using drainBlocks_append [of h st1 "b1 @ ?n1" ?n2] by simp
  show ?thesis
  proof (cases "drainBlocks h st1 (b1 @ ?n1)")
    case (Inl e)
    with app have "drainBlocks h st1 (b1 @ ?n1 @ ?n2) = Inl e"
      by simp
    with Inl left right show ?thesis
      by (simp add: pumpReader.simps [of h st1 "b1 @ ?n1"]
          pumpReader.simps [of h st1 "b1 @ ?n1 @ ?n2"])
  next
    case (Inr r2)
    obtain st2 b2 where r2: "r2 = (st2, b2)" by (cases r2)
    from Inr r2 app have d: "drainBlocks h st1 (b1 @ ?n1 @ ?n2) = drainBlocks h st2 (b2 @ ?n2)"
      by simp
    have "pumpReader h st1 (b1 @ ?n1) (Inr c2 # reads) = pumpReader h st2 (b2 @ ?n2) reads"
      using Inr r2 by (simp add: pumpReader.simps [of h st1 "b1 @ ?n1"])
    moreover have "pumpReader h st1 (b1 @ ?n1 @ ?n2) reads = pumpReader h st2 (b2 @ ?n2) reads"
      using d by (simp add: pumpReader.simps [of h st1 "b1 @ ?n1 @ ?n2"]
          pumpReader.simps [of h st2 "b2 @ ?n2"])
    ultimately show ?thesis using left right by simp
  qed
qed

lemma pumpReader_chunks:
  "(\<forall>i \<le> length cs. \<not> (endsWithCR (c @ concat (take i cs)) \<and> startsWithLF (concat (drop i cs))))
   \<Longrightarrow> pumpReader h st buffer (map Inr (c # cs)) = pumpReader h st buffer [Inr (c @ concat cs)]"
proof (induction cs arbitrary: c)
  case Nil
  then show ?case by simp
next
  case (Cons c2 cs)
  from Cons.prems have "\<not> (endsWithCR c \<and> startsWithLF (c2 @ concat cs))"
    by (auto dest: spec [of _ 0])
  then have two: "\<not> (endsWithCR c \<and> startsWithLF c2)"
    by (auto simp: startsWithLF_def)
  have later: "\<forall>i \<le> length cs. \<not> (endsWithCR ((c @ c2) @ concat (take i cs))
                    \<and> startsWithLF (concat (drop i cs)))"
  proof (intro allI impI)
    fix i assume "i \<le> length cs"
    with Cons.prems [rule_format, of "Suc i"] show
      "\<not> (endsWithCR ((c @ c2) @ concat (take i cs)) \<and> startsWithLF (concat (drop i cs)))"
      by simp
  qed
  have "pumpReader h st buffer (map Inr (c # c2 # cs)) =
        pumpReader h st buffer (Inr (c @ c2) # map Inr cs)"
    using pumpReader_two_chunks [OF two] by simp
  also have "\<dots> = pumpReader h st buffer [Inr ((c @ c2) @ concat cs)]"
    using Cons.IH [OF later] by simp
  finally show ?case by simp
qed

lemma pumpReader_empty_chunk:
  "pumpReader h st buffer [Inr []] = pumpReader h st buffer []"
proof (cases "drainBlocks h st buffer")
  case (Inl e)
  then show ?thesis by (simp add: pumpReader.simps [of h st buffer])
next
  case (Inr r)
  obtain st1 b1 where r: "r = (st1, b1)" by (cases r)
  have n: "normalizeNewlines [] = []" by (simp add: normalizeNewlines_def replaceCR_def)
  from Inr r drainBlocks_again [of h st buffer st1 b1] show ?thesis
    by (simp add: pumpReader.simps [of h st buffer] pumpReader.simps [of h st1 b1] n)
qed

lemma chunk_boundary_independence:
  assumes "\<forall>i \<le> length chunks.
             \<not> (endsWithCR (concat (take i chunks)) \<and> startsWithLF (concat (drop i chunks)))"
  shows "readSseTextStream h (map Inr chunks) initialBuffer =
         readSseTextStream h [Inr (concat chunks)] initialBuffer"
proof -
  have "pumpReader h initialAccumulator initialBuffer (map Inr chunks) =
        pumpReader h initialAccumulator initialBuffer [Inr (concat chunks)]"
  proof (cases chunks)
    case Nil
    then show ?thesis by (simp add: pumpReader_empty_chunk)
  next
    case (Cons c cs)
    have "\<forall>i \<le> length cs. \<not> (endsWithCR (c @ concat (take i cs))
                    \<and> startsWithLF (concat (drop i cs)))"
    proof (intro allI impI)
      fix i assume "i \<le> length cs"
      with assms [rule_format, of "Suc i"] Cons show
        "\<not> (endsWithCR (c @ concat (take i cs)) \<and> startsWithLF (concat (drop i cs)))"
        by simp
    qed
    from pumpReader_chunks [OF this] Cons show ?thesis by simp
  qed
  then show ?thesis by (simp add: readSseTextStream_def decodeStream_def)
qed

subsection \<open>The claims\<close>

text \<open>
  C1 (amended). When the reads are exhausted, what is left in the buffer is flushed as
  one last block, and the text returned follows this precedence, where a text counts only when it
  has a character that is not white space: the done-text when it counts and is at least
  as long as the concatenation of the incremental chunks; else that concatenation when
  it counts; else the done-text when it counts; else the whole-document extraction
  applied to the recorded envelope, converted with \<open>String\<close> when it is truthy; else the
  empty text.
\<close>

theorem C1_final_text_precedence:
  assumes "decodeStream h reads initialBuffer = Inr st"
  defines "streamed \<equiv> concat (textChunks st)"
  defines "envelopeText \<equiv> extractResponseText (completedResponse st)"
  defines "result \<equiv> readSseTextStream h reads initialBuffer"
  shows "(trim (doneText st) \<noteq> [] \<and> length streamed \<le> length (doneText st)
            \<longrightarrow> result = Inr (doneText st))
       \<and> (\<not> (trim (doneText st) \<noteq> [] \<and> length streamed \<le> length (doneText st))
            \<and> trim streamed \<noteq> [] \<longrightarrow> result = Inr streamed)
       \<and> (length (doneText st) < length streamed \<and> trim streamed = [] \<and> trim (doneText st) \<noteq> []
            \<longrightarrow> result = Inr (doneText st))
       \<and> (trim (doneText st) = [] \<and> trim streamed = [] \<and> truthy envelopeText
            \<longrightarrow> result = (case toStringJS envelopeText of
                             Some s \<Rightarrow> Inr s
                           | None \<Rightarrow> Inl (ErrorObj ''TypeError'' (toPrimitiveMessage h))))
       \<and> (trim (doneText st) = [] \<and> trim streamed = [] \<and> \<not> truthy envelopeText
            \<longrightarrow> result = Inr [])
       \<and> (\<forall>st0 buffer. pumpReader h initialAccumulator initialBuffer reads = Inr (st0, buffer)
            \<longrightarrow> flushEventBlock h st0 buffer = Inr st)"
proof -
  have flushed: "flushEventBlock h st0 buffer = Inr st"
    if "pumpReader h initialAccumulator initialBuffer reads = Inr (st0, buffer)" for st0 buffer
    using decodeStream_flush [OF that] assms(1) by simp
  from assms have "(trim (doneText st) \<noteq> [] \<and> length streamed \<le> length (doneText st)
            \<longrightarrow> result = Inr (doneText st))
       \<and> (\<not> (trim (doneText st) \<noteq> [] \<and> length streamed \<le> length (doneText st))
            \<and> trim streamed \<noteq> [] \<longrightarrow> result = Inr streamed)
       \<and> (length (doneText st) < length streamed \<and> trim streamed = [] \<and> trim (doneText st) \<noteq> []
            \<longrightarrow> result = Inr (doneText st))
       \<and> (trim (doneText st) = [] \<and> trim streamed = [] \<and> truthy envelopeText
            \<longrightarrow> result = (case toStringJS envelopeText of
                             Some s \<Rightarrow> Inr s
                           | None \<Rightarrow> Inl (ErrorObj ''TypeError'' (toPrimitiveMessage h))))
       \<and> (trim (doneText st) = [] \<and> trim streamed = [] \<and> \<not> truthy envelopeText
            \<longrightarrow> result = Inr [])"
    by (auto simp: readSseTextStream_def resolveFinalText_def stringOrEmpty_def Let_def)
  with flushed show ?thesis by blast
qed

text \<open>The example of the claim: the deltas \<open>Hel\<close> and \<open>lo\<close>, then the done-text \<open>Hello\<close>,
  resolve to \<open>Hello\<close>.\<close>

theorem C1_hello_witness:
  "decodeStream refHost [Inr helloStream] [] =
     Inr \<lparr>textChunks = [''Hel'', ''lo''], doneText = ''Hello'', completedResponse = JNull\<rparr>
   \<and> readSseTextStream refHost [Inr helloStream] [] = Inr ''Hello''"
proof -
  have d: "decodeStream refHost [Inr helloStream] [] =
     Inr \<lparr>textChunks = [''Hel'', ''lo''], doneText = ''Hello'', completedResponse = JNull\<rparr>"
    by code_simp
  have t: "trim ''Hello'' \<noteq> []"
    by code_simp
  from C1_final_text_precedence [OF d] t show ?thesis
    using d by simp
qed

text \<open>
  C1 as stated fails: a done-text of one space is not empty and is at least as long as
  the (empty) concatenation of the chunks, yet the text returned is empty, not the space.
\<close>

theorem C1_blank_done_text_counterexample:
  "decodeStream refHost [Inr blankDoneStream] [] =
     Inr \<lparr>textChunks = [], doneText = '' '', completedResponse = JNull\<rparr>
   \<and> readSseTextStream refHost [Inr blankDoneStream] [] = Inr []"
  by code_simp

text \<open>
  C2. The same bytes give different texts when a chunk boundary falls inside a CR LF
  pair: delivered as one chunk they are one event whose text is \<open>a\<close>, a newline and \<open>b\<close>;
  cut after the first CR they are two events and the text is \<open>ab\<close>. (For every other
  way of cutting the bytes the two texts agree: lemma \<open>chunk_boundary_independence\<close>.)
\<close>

theorem C2_split_inside_crlf:
  "readSseTextStream refHost [Inr (crlfHead @ crlfTail)] [] = Inr (''a'' @ [LF] @ ''b'')
   \<and> readSseTextStream refHost [Inr crlfHead, Inr crlfTail] [] = Inr ''ab''"
  by code_simp

text \<open>
  C3 (amended). When the payload of a flushed block parses to an error event (type
  \<open>response.error\<close>), the flush throws an error whose message is the carried message,
  or \<open>Response error.\<close> when that is absent or blank. The decoder stops there, whatever the
  accumulator, the rest of the buffer and the reads to come: this holds for a block
  ended by the separator and for the block left at the end of the stream. The handler
  does not fetch again; its reply is \<open>Failed\<close> with that message, except that a message
  holding the word \<open>abort\<close> is reported as \<open>Cancelled\<close> and the message \<open>Failed to fetch\<close>
  is replaced by the network diagnostic.
\<close>

theorem C3_error_event_aborts:
  assumes "dataLinesOf block \<noteq> []"
      and "trim (join [LF] (dataLinesOf block)) \<noteq> []"
      and "trim (join [LF] (dataLinesOf block)) \<noteq> ''[DONE]''"
      and "JSON_parse h (trim (join [LF] (dataLinesOf block))) = Some payload"
      and "getProp payload ''type'' = JStr ''response.error''"
  defines "carried \<equiv> getProp (getProp payload ''error'') ''message''"
  defines "m \<equiv> (if isString carried \<and> trim (strOf carried) \<noteq> [] then strOf carried
                 else ''Response error.'')"
  shows "(\<forall>st. flushEventBlock h st block = Inl (newError m))
       \<and> (\<forall>st buffer i reads. indexOf buffer [LF, LF] = Some i \<and> take i buffer = block
             \<longrightarrow> pumpReader h st buffer reads = Inl (newError m))
       \<and> (\<forall>buffer i reads. indexOf buffer [LF, LF] = Some i \<and> take i buffer = block
             \<longrightarrow> readSseTextStream h reads buffer = Inl (newError m))
       \<and> (\<forall>st reads initialBuffer.
             pumpReader h initialAccumulator initialBuffer reads = Inr (st, block)
             \<longrightarrow> readSseTextStream h reads initialBuffer = Inl (newError m))
       \<and> (\<forall>cfg fetch res first rest.
             trim (apiUrl cfg) \<noteq> [] \<and> token cfg \<noteq> [] \<and> model cfg \<noteq> []
             \<and> outcome (fetchWithRetry fetch 1 350) = Inr res \<and> resOk res
             \<and> resBody res = Some (Inr first # rest) \<and> sniffMode first = EventStreamMode
             \<and> readSseTextStream h rest (normalizeNewlines first) = Inl (newError m)
             \<longrightarrow> chatRespond h (Inr cfg) fetch =
                   (if testCI ''abort'' m then Cancelled
                    else if m = ''Failed to fetch''
                    then Failed ''Network error: Failed to fetch (temporary connection issue or API unreachable).''
                    else Failed m))"
proof -
  have flush: "flushEventBlock h st block = Inl (newError m)" for st
    unfolding m_def carried_def using assms(1-5) by (rule flushEventBlock_error_event)
  have pump: "pumpReader h st buffer reads = Inl (newError m)"
    if "indexOf buffer [LF, LF] = Some i" and "take i buffer = block" for st buffer i reads
    using that flush by (simp add: pumpReader_error_block)
  have stream: "readSseTextStream h reads buffer = Inl (newError m)"
    if "indexOf buffer [LF, LF] = Some i" and "take i buffer = block" for buffer i reads
    using pump [OF that] by (simp add: readSseTextStream_def decodeStream_def)
  have final: "readSseTextStream h reads initialBuffer = Inl (newError m)"
    if "pumpReader h initialAccumulator initialBuffer reads = Inr (st, block)"
    for st reads initialBuffer
    using decodeStream_flush [OF that] flush by (simp add: readSseTextStream_def)
  have "m \<noteq> []" by (auto simp: m_def trim_def trimStart_def trimEnd_def)
  then have catch: "chatCatch (newError m) =
           (if testCI ''abort'' m then Cancelled
            else if m = ''Failed to fetch''
            then Failed ''Network error: Failed to fetch (temporary connection issue or API unreachable).''
            else Failed m)"
    by (rule chatCatch_newError)
  have reply: "chatRespond h (Inr cfg) fetch =
                   (if testCI ''abort'' m then Cancelled
                    else if m = ''Failed to fetch''
                    then Failed ''Network error: Failed to fetch (temporary connection issue or API unreachable).''
                    else Failed m)"
    if "trim (apiUrl cfg) \<noteq> []" and "token cfg \<noteq> []" and "model cfg \<noteq> []"
      and "outcome (fetchWithRetry fetch 1 350) = Inr res" and "resOk res"
      and "resBody res = Some (Inr first # rest)" and "sniffMode first = EventStreamMode"
      and "readSseTextStream h rest (normalizeNewlines first) = Inl (newError m)"
    for cfg fetch res first rest
    using chatRespond_event_stream [OF that(1-7), of h] that(8) catch by simp
  from flush pump stream final reply show ?thesis by blast
qed


text \<open>The example of the claim: the error event with the message \<open>rate limited\<close>, a
  delta after it, one call of \<open>fetch\<close>.\<close>

theorem C3_rate_limited_witness:
  "readSseTextStream refHost [Inr lateDelta] (rateLimitedBlock @ [LF, LF])
     = Inl (newError ''rate limited'')
   \<and> chatRespond refHost (Inr exampleConfig)
        (serve (okResponse [Inr (rateLimitedBlock @ [LF, LF]), Inr lateDelta]))
     = Failed ''rate limited''
   \<and> calls (fetchWithRetry
        (serve (okResponse [Inr (rateLimitedBlock @ [LF, LF]), Inr lateDelta])) 1 350) = 1"
proof -
  let ?first = "rateLimitedBlock @ [LF, LF]"
  let ?res = "okResponse [Inr ?first, Inr lateDelta]"
  have hyps:
    "dataLinesOf rateLimitedBlock \<noteq> []"
    "trim (join [LF] (dataLinesOf rateLimitedBlock)) \<noteq> []"
    "trim (join [LF] (dataLinesOf rateLimitedBlock)) \<noteq> ''[DONE]''"
    "JSON_parse refHost (trim (join [LF] (dataLinesOf rateLimitedBlock))) = Some rateLimitedPayload"
    "getProp rateLimitedPayload ''type'' = JStr ''response.error''"
    by code_simp+
  have m: "(if isString (getProp (getProp rateLimitedPayload ''error'') ''message'')
              \<and> trim (strOf (getProp (getProp rateLimitedPayload ''error'') ''message'')) \<noteq> []
           then strOf (getProp (getProp rateLimitedPayload ''error'') ''message'')
           else ''Response error.'') = ''rate limited''"
    by code_simp
  note T = C3_error_event_aborts [OF hyps, unfolded m]
  have sep: "indexOf ?first [LF, LF] = Some (length rateLimitedBlock)"
    by code_simp
  have block: "take (length rateLimitedBlock) ?first = rateLimitedBlock"
    by simp
  from T sep block have stream:
    "readSseTextStream refHost reads ?first = Inl (newError ''rate limited'')" for reads
    by blast
  have norm: "normalizeNewlines ?first = ?first"
    by code_simp
  have cfg: "trim (apiUrl exampleConfig) \<noteq> []" "token exampleConfig \<noteq> []"
    "model exampleConfig \<noteq> []"
    by code_simp+
  have fetched: "outcome (fetchWithRetry (serve ?res) 1 350) = Inr ?res"
    by (simp add: fetchWithRetry_def retryLoop.simps)
  have ok: "resOk ?res" and body: "resBody ?res = Some (Inr ?first # [Inr lateDelta])"
    by (simp_all add: okResponse_def)
  have sniff: "sniffMode ?first = EventStreamMode"
    by code_simp
  have no_abort: "\<not> testCI ''abort'' ''rate limited''"
    by code_simp
  note R = T [THEN conjunct2, THEN conjunct2, THEN conjunct2, THEN conjunct2, rule_format,
      of exampleConfig "serve ?res" ?res ?first "[Inr lateDelta]"]
  from cfg fetched ok body sniff stream [of "[Inr lateDelta]"] norm
  have "chatRespond refHost (Inr exampleConfig) (serve ?res) =
          (if testCI ''abort'' ''rate limited'' then Cancelled
           else if ''rate limited'' = ''Failed to fetch''
           then Failed ''Network error: Failed to fetch (temporary connection issue or API unreachable).''
           else Failed ''rate limited'')"
    by (intro R) simp
  with no_abort have reply: "chatRespond refHost (Inr exampleConfig) (serve ?res) = Failed ''rate limited''"
    by simp
  have once: "calls (fetchWithRetry (serve ?res) 1 350) = 1"
    by (simp add: fetchWithRetry_def retryLoop.simps)
  from stream [of "[Inr lateDelta]"] reply once show ?thesis by simp
qed

text \<open>
  C3 as stated fails: the error event whose message is \<open>upstream aborted\<close> makes the
  decoder throw that message, and the reply of the handler is \<open>Cancelled\<close>, not \<open>Failed\<close>
  with the carried message.
\<close>

theorem C3_aborted_message_counterexample:
  "readSseTextStream refHost [] abortedErrorStream = Inl (newError ''upstream aborted'')
   \<and> chatRespond refHost (Inr exampleConfig) (serve (okResponse [Inr abortedErrorStream]))
       = Cancelled"
  by code_simp

text \<open>
  C4. With a budget of \<open>retries \<ge> 0\<close> and a delay \<open>retryDelayMs \<ge> 0\<close>, the retrier
  calls \<open>fetch\<close> at least once and at most \<open>retries + 1\<close> times; it sleeps once before
  every call but the first, and the delay before call \<open>k\<close> (\<open>k \<ge> 2\<close>) is
  \<open>retryDelayMs \<times> (k - 1)\<close>. When a call is rejected as a cancellation after failures of
  the transport only, that rejection is thrown at once and no further call is made; a
  call that resolves after such failures gives the result; and when every call of the
  budget fails, the last failure is thrown after \<open>retries + 1\<close> calls.
\<close>

theorem C4_fetchWithRetry_budget:
  fixes fetch :: "nat \<Rightarrow> 'r settled"
  assumes "0 \<le> retries" and "0 \<le> retryDelayMs"
  defines "run \<equiv> fetchWithRetry fetch retries retryDelayMs"
  shows "1 \<le> calls run \<and> calls run \<le> nat retries + 1
       \<and> length (sleeps run) = calls run - 1
       \<and> (\<forall>k. 2 \<le> k \<and> k \<le> calls run \<longrightarrow> sleeps run ! (k - 2) = retryDelayMs * int (k - 1))
       \<and> (\<forall>a. a \<le> nat retries \<and> (\<forall>j<a. transportFailure (fetch j)) \<and> cancelledCall (fetch a)
             \<longrightarrow> outcome run = settledResult (fetch a) \<and> calls run = a + 1)
       \<and> (\<forall>a res. a \<le> nat retries \<and> (\<forall>j<a. transportFailure (fetch j)) \<and> fetch a = Resolves res
             \<longrightarrow> outcome run = Inr res \<and> calls run = a + 1)
       \<and> ((\<forall>j \<le> nat retries. transportFailure (fetch j))
             \<longrightarrow> outcome run = settledResult (fetch (nat retries)) \<and> calls run = nat retries + 1)"
proof -
  from fetchWithRetry_settles [OF assms(1), of fetch retryDelayMs]
  obtain a where a: "a \<le> nat retries"
    and r: "run = \<lparr>outcome = settledResult (fetch a), calls = a + 1,
                sleeps = map (\<lambda>i. sleepMs (retryDelayMs * int i)) [1 ..< Suc a]\<rparr>"
    unfolding run_def by blast
  have delay: "sleepMs (retryDelayMs * int i) = retryDelayMs * int i" for i
    using assms(2) by (simp add: sleepMs_def)
  have p1: "1 \<le> calls run \<and> calls run \<le> nat retries + 1 \<and> length (sleeps run) = calls run - 1"
    using a r by simp
  have p2: "sleeps run ! (k - 2) = retryDelayMs * int (k - 1)" if "2 \<le> k" and "k \<le> calls run" for k
  proof -
    from that r have "k - 2 < length [1 ..< Suc a]" by simp
    then have "sleeps run ! (k - 2) = sleepMs (retryDelayMs * int ([1 ..< Suc a] ! (k - 2)))"
      using r by (simp del: upt_Suc)
    also have "[1 ..< Suc a] ! (k - 2) = k - 1" using that r by (simp del: upt_Suc)
    finally show ?thesis by (simp add: delay)
  qed
  have p3: "outcome run = settledResult (fetch b) \<and> calls run = b + 1"
    if "b \<le> nat retries" and "\<forall>j<b. transportFailure (fetch j)" and "cancelledCall (fetch b)" for b
  proof -
    from that(3) have "\<not> transportFailure (fetch b)" by (cases "fetch b") auto
    with fetchWithRetry_at [OF assms(1) that(1,2), of retryDelayMs] show ?thesis
      by (simp add: run_def)
  qed
  have p4: "outcome run = Inr res \<and> calls run = b + 1"
    if "b \<le> nat retries" and "\<forall>j<b. transportFailure (fetch j)" and "fetch b = Resolves res" for b res
    using fetchWithRetry_at [OF assms(1) that(1,2), of retryDelayMs] that(3) by (simp add: run_def)
  have p5: "outcome run = settledResult (fetch (nat retries)) \<and> calls run = nat retries + 1"
    if "\<forall>j \<le> nat retries. transportFailure (fetch j)"
    using fetchWithRetry_at [OF assms(1), of "nat retries" fetch retryDelayMs] that
    by (simp add: run_def)
  from p1 p2 p3 p4 p5 show ?thesis by blast
qed

text \<open>The example of the claim: with one retry, a transport that fails twice gives the
  second failure after two calls and one sleep of 350 ms; its later success is never
  asked for.\<close>

theorem C4_fail_twice_witness:
  "outcome (fetchWithRetry failTwiceThenServe 1 350) = Inl (ErrorObj ''TypeError'' ''network down'')
   \<and> calls (fetchWithRetry failTwiceThenServe 1 350) = 2
   \<and> sleeps (fetchWithRetry failTwiceThenServe 1 350) = [350]"
proof -
  have tf: "\<forall>j \<le> nat 1. transportFailure (failTwiceThenServe j)"
    by (auto simp: le_Suc_eq)
  note T = C4_fetchWithRetry_budget [of 1 350 failTwiceThenServe, simplified]
  from T tf have o: "outcome (fetchWithRetry failTwiceThenServe 1 350)
      = settledResult (failTwiceThenServe 1)"
    and c: "calls (fetchWithRetry failTwiceThenServe 1 350) = 2"
    by auto
  from T c have l: "length (sleeps (fetchWithRetry failTwiceThenServe 1 350)) = 1"
    and s: "sleeps (fetchWithRetry failTwiceThenServe 1 350) ! 0 = 350"
    by (auto dest: spec [of _ 2])
  from l s have "sleeps (fetchWithRetry failTwiceThenServe 1 350) = [350]"
    by (cases "sleeps (fetchWithRetry failTwiceThenServe 1 350)") auto
  with o c show ?thesis by simp
qed

text \<open>
  C5. Cancelling a request that is registered aborts its controller, removes the entry
  and reports a live entry; cancelling one that is not registered changes nothing and
  reports success with no live entry. The \<open>finally\<close> block of the handler removes the
  entry whatever the reply. Whichever of the two runs second finds the entry gone and
  changes nothing, so in both orders the entry is removed exactly once; the entries of
  other requests are not touched.
\<close>

theorem C5_cancel_and_retire:
  fixes st :: registry and requestId :: string
  defines "cancelled \<equiv> fst (cancelChat st (JStr requestId))"
  defines "retired \<equiv> chatFinally st requestId"
  shows "(\<forall>controller. inflightChats st requestId = Some controller \<longrightarrow>
            cancelChat st (JStr requestId) =
              (st\<lparr>abortedControllers := insert controller (abortedControllers st),
                  inflightChats := (inflightChats st)(requestId := None)\<rparr>,
               \<lparr>ok = True, aborted = True\<rparr>))
       \<and> (inflightChats st requestId = None \<longrightarrow>
            cancelChat st (JStr requestId) = (st, \<lparr>ok = True, aborted = False\<rparr>))
       \<and> inflightChats retired requestId = None
       \<and> chatSettle h st requestId loaded fetch = (retired, chatRespond h loaded fetch)
       \<and> cancelChat retired (JStr requestId) = (retired, \<lparr>ok = True, aborted = False\<rparr>)
       \<and> chatFinally cancelled requestId = cancelled
       \<and> (inflightChats st requestId \<noteq> None \<longrightarrow>
            entryRemoved st cancelled requestId
              + entryRemoved cancelled (chatFinally cancelled requestId) requestId = 1
          \<and> entryRemoved st retired requestId
              + entryRemoved retired (fst (cancelChat retired (JStr requestId))) requestId = 1)
       \<and> (\<forall>other. other \<noteq> requestId \<longrightarrow>
            inflightChats cancelled other = inflightChats st other
          \<and> inflightChats retired other = inflightChats st other)"
  unfolding cancelled_def retired_def
  by (auto simp: cancelChat_def chatFinally_def chatSettle_def entryRemoved_def Let_def
      delete_absent split: option.splits)

text \<open>One request in flight: cancelled while registered, and cancelled after it was
  retired.\<close>

theorem C5_registry_witness:
  "cancelChat oneChatInFlight (JStr ''req-1'') =
     (\<lparr>inflightChats = Map.empty, abortedControllers = {0}, nextController = 1\<rparr>,
      \<lparr>ok = True, aborted = True\<rparr>)
   \<and> cancelChat (chatFinally oneChatInFlight ''req-1'') (JStr ''req-1'') =
       (\<lparr>inflightChats = Map.empty, abortedControllers = {}, nextController = 1\<rparr>,
        \<lparr>ok = True, aborted = False\<rparr>)"
proof -
  have e: "inflightChats oneChatInFlight ''req-1'' = Some 0"
    by (simp add: oneChatInFlight_def)
  have f: "chatFinally oneChatInFlight ''req-1'' =
      \<lparr>inflightChats = Map.empty, abortedControllers = {}, nextController = 1\<rparr>"
    by (simp add: chatFinally_def oneChatInFlight_def)
  from C5_cancel_and_retire [of oneChatInFlight "''req-1''"] e f show ?thesis
    by (simp add: oneChatInFlight_def)
qed

text \<open>
  C6 (amended). When the first chunk of a body is classified as an event stream, the
  result is the result of the stream decoder on the rest of the reads, as it is: when
  the decoder finds no usable text the result is the empty text, and the reply of the
  handler is the empty content. The body is not parsed as one JSON document.
\<close>

theorem C6_event_stream_result_is_final:
  assumes "sniffMode first = EventStreamMode"
  shows "readResponseText h (Some (Inr first # rest)) =
           (case readSseTextStream h rest (normalizeNewlines first) of
              Inl e \<Rightarrow> Inl e
            | Inr t \<Rightarrow> Inr (JStr t))
       \<and> (readSseTextStream h rest (normalizeNewlines first) = Inr []
            \<longrightarrow> readResponseText h (Some (Inr first # rest)) = Inr (JStr []))
       \<and> (\<forall>cfg fetch res.
             trim (apiUrl cfg) \<noteq> [] \<and> token cfg \<noteq> [] \<and> model cfg \<noteq> []
             \<and> outcome (fetchWithRetry fetch 1 350) = Inr res \<and> resOk res
             \<and> resBody res = Some (Inr first # rest)
             \<and> readSseTextStream h rest (normalizeNewlines first) = Inr []
             \<longrightarrow> chatRespond h (Inr cfg) fetch = Content [])"
proof -
  have a: "readResponseText h (Some (Inr first # rest)) =
           (case readSseTextStream h rest (normalizeNewlines first) of
              Inl e \<Rightarrow> Inl e
            | Inr t \<Rightarrow> Inr (JStr t))"
    using assms by (rule readResponseText_event_stream)
  have c: "chatRespond h (Inr cfg) fetch = Content []"
    if "trim (apiUrl cfg) \<noteq> []" and "token cfg \<noteq> []" and "model cfg \<noteq> []"
      and "outcome (fetchWithRetry fetch 1 350) = Inr res" and "resOk res"
      and "resBody res = Some (Inr first # rest)"
      and "readSseTextStream h rest (normalizeNewlines first) = Inr []"
    for cfg fetch res
    using chatRespond_event_stream [OF that(1-6) assms, of h] that(7) by simp
  from a c show ?thesis by simp
qed

text \<open>The stream of the first example, read as a body.\<close>

theorem C6_hello_witness:
  "sniffMode helloStream = EventStreamMode
   \<and> readResponseText refHost (Some [Inr helloStream]) = Inr (JStr ''Hello'')"
proof -
  have s: "sniffMode helloStream = EventStreamMode"
    by code_simp
  have d: "readSseTextStream refHost [] (normalizeNewlines helloStream) = Inr ''Hello''"
    by code_simp
  from C6_event_stream_result_is_final [OF s, of refHost "[]"] d s show ?thesis
    by simp
qed

text \<open>
  C6 as stated fails: a body that is one comment line is classified as an event stream
  and yields no text; parsing the whole of it as a JSON document throws, but the result
  of the read is the empty text.
\<close>

theorem C6_no_json_fallback_counterexample:
  "sniffMode pingBody = EventStreamMode
   \<and> readSseTextStream refHost [] (normalizeNewlines pingBody) = Inr []
   \<and> readResponseText refHost (Some [Inr pingBody]) = Inr (JStr [])
   \<and> parseWholeDocument refHost pingBody = Inl (newError ''Invalid JSON response from API.'')"
  by code_simp

text \<open>
  C7 (amended). The first chunk, its line terminators normalised, is classified as JSON
  when the trimmed text starts with \<open>{\<close> or \<open>[\<close>, whatever else it holds; otherwise as an
  event stream when the trimmed text starts with \<open>data:\<close>, \<open>event:\<close> or \<open>:\<close>, or some line
  of the text begins with \<open>data:\<close> or \<open>event:\<close>; otherwise as JSON.
\<close>

theorem C7_sniff_by_content:
  "sniffMode firstChunk = sniffByLines [''data:'', ''event:''] (normalizeNewlines firstChunk)"
proof -
  let ?t = "normalizeNewlines firstChunk"
  have d: "list_ex (\<lambda>line. startsWith line ''data:'') (splitLines ?t)
             \<longleftrightarrow> prefix ''data:'' ?t \<or> includesStr ?t (LF # ''data:'')"
    by (rule line_prefix) (simp add: LF_def)
  have e: "list_ex (\<lambda>line. startsWith line ''event:'') (splitLines ?t)
             \<longleftrightarrow> prefix ''event:'' ?t \<or> includesStr ?t (LF # ''event:'')"
    by (rule line_prefix) (simp add: LF_def)
  have both: "list_ex (\<lambda>line. list_ex (startsWith line) [''data:'', ''event:'']) (splitLines ?t)
      \<longleftrightarrow> list_ex (\<lambda>line. startsWith line ''data:'') (splitLines ?t)
          \<or> list_ex (\<lambda>line. startsWith line ''event:'') (splitLines ?t)"
    by (auto simp: list_ex_iff)
  have pd: "prefix ''data:'' ?t \<Longrightarrow> prefix ''data:'' (trimStart ?t)"
    by (rule trimStart_prefix_nonspace) (simp_all add: isWhiteSpace_def)
  have pe: "prefix ''event:'' ?t \<Longrightarrow> prefix ''event:'' (trimStart ?t)"
    by (rule trimStart_prefix_nonspace) (simp_all add: isWhiteSpace_def)
  show ?thesis
    unfolding sniffMode_def sniffByLines_def Let_def looksLikeSse_def looksLikeJson_def
      fieldPrefixes_def both d e
    using pd pe by (auto simp: startsWith_def)
qed

text \<open>A data line after a first line ended by CR LF; the same after an opening brace.\<close>

theorem C7_data_line_witness:
  "sniffMode (''ok'' @ [CR, LF] @ ''data: x'') = EventStreamMode
   \<and> sniffMode (''{'' @ [LF] @ ''data: x'') = JsonMode"
proof -
  have "sniffByLines [''data:'', ''event:''] (normalizeNewlines (''ok'' @ [CR, LF] @ ''data: x''))
          = EventStreamMode"
    by code_simp
  moreover have "sniffByLines [''data:'', ''event:''] (normalizeNewlines (''{'' @ [LF] @ ''data: x''))
          = JsonMode"
    by code_simp
  ultimately show ?thesis
    using C7_sniff_by_content [of "''ok'' @ [CR, LF] @ ''data: x''"]
      C7_sniff_by_content [of "''{'' @ [LF] @ ''data: x''"]
    by simp
qed

text \<open>
  C7 as stated fails: a chunk whose second line begins with a colon holds a line that
  begins with a field prefix, yet it is classified as JSON.
\<close>

theorem C7_colon_line_counterexample:
  "sniffMode colonLineChunk = JsonMode
   \<and> sniffByLines fieldPrefixes (normalizeNewlines colonLineChunk) = EventStreamMode"
  by code_simp

text \<open>
  C8 (amended). A body whose first chunk looks neither like JSON nor like an event
  stream is read to its end and parsed as one JSON document. When that fails, the reply
  is \<open>Failed\<close> with the message \<open>Invalid JSON response from API.\<close>; when it gives a value
  that is not an object (a string, a number, \<open>true\<close>, \<open>false\<close>, \<open>null\<close>), the extraction
  yields the empty text and the reply is the empty content. In both cases the handler
  replies.
\<close>

theorem C8_plain_text_body:
  assumes "trim (apiUrl cfg) \<noteq> []" and "token cfg \<noteq> []" and "model cfg \<noteq> []"
      and "outcome (fetchWithRetry fetch 1 350) = Inr res" and "resOk res"
      and "resBody res = Some (Inr first # rest)"
      and "\<not> looksLikeJson (trimStart (normalizeNewlines first))"
      and "\<not> looksLikeSse (trimStart (normalizeNewlines first)) (normalizeNewlines first)"
      and "readRemaining (normalizeNewlines first) rest = Inr all"
  shows "(JSON_parse h all = None
            \<longrightarrow> chatRespond h (Inr cfg) fetch = Failed ''Invalid JSON response from API.'')
       \<and> (\<forall>data. JSON_parse h all = Some data \<and> \<not> (truthy data \<and> typeofObject data)
            \<longrightarrow> extractResponseText data = JStr []
                \<and> chatRespond h (Inr cfg) fetch = Content [])"
proof -
  from assms(7,8) have mode: "sniffMode first = JsonMode"
    by (simp add: sniffMode_def Let_def)
  have body: "readResponseText h (resBody res) =
     (case JSON_parse h all of
        None \<Rightarrow> Inl (newError ''Invalid JSON response from API.'')
      | Some data \<Rightarrow> Inr (extractResponseText data))"
    using readResponseText_json [OF mode assms(9)] assms(6) by simp
  have tried: "chatTry h (Inr cfg) fetch =
           (case readResponseText h (resBody res) of
              Inl e \<Rightarrow> Inl e
            | Inr content \<Rightarrow>
                (case stringOrEmpty h content of Inl e \<Rightarrow> Inl e | Inr s \<Rightarrow> Inr (Content s)))"
    using assms(1-5) by (rule chatTry_resolved)
  have "chatCatch (newError ''Invalid JSON response from API.'')
          = Failed ''Invalid JSON response from API.''"
    using chatCatch_newError [of "''Invalid JSON response from API.''"] invalid_json_no_abort
    by simp
  then have a: "chatRespond h (Inr cfg) fetch = Failed ''Invalid JSON response from API.''"
    if "JSON_parse h all = None"
    using that tried body by (simp add: chatRespond_def)
  have b: "extractResponseText data = JStr [] \<and> chatRespond h (Inr cfg) fetch = Content []"
    if "JSON_parse h all = Some data" and "\<not> (truthy data \<and> typeofObject data)" for data
    using that tried body extractResponseText_not_object [OF that(2)]
    by (simp add: chatRespond_def stringOrEmpty_JStr)
  from a b show ?thesis by blast
qed

text \<open>The text \<open>hello\<close> in two chunks, and the JSON string \<open>"hello"\<close>.\<close>

theorem C8_witness:
  "chatRespond refHost (Inr exampleConfig) (serve (okResponse [Inr ''hel'', Inr ''lo'']))
     = Failed ''Invalid JSON response from API.''
   \<and> chatRespond refHost (Inr exampleConfig) (serve (okResponse [Inr quotedTextBody]))
     = Content []"
proof -
  have cfg: "trim (apiUrl exampleConfig) \<noteq> []" "token exampleConfig \<noteq> []"
    "model exampleConfig \<noteq> []"
    by code_simp+
  have f1: "outcome (fetchWithRetry (serve (okResponse [Inr ''hel'', Inr ''lo''])) 1 350)
              = Inr (okResponse [Inr ''hel'', Inr ''lo''])"
    and f2: "outcome (fetchWithRetry (serve (okResponse [Inr quotedTextBody])) 1 350)
              = Inr (okResponse [Inr quotedTextBody])"
    by (simp_all add: fetchWithRetry_def retryLoop.simps)
  have ok: "resOk (okResponse reads)" and body: "resBody (okResponse reads) = Some reads" for reads
    by (simp_all add: okResponse_def)
  have s1: "\<not> looksLikeJson (trimStart (normalizeNewlines ''hel''))"
    "\<not> looksLikeSse (trimStart (normalizeNewlines ''hel'')) (normalizeNewlines ''hel'')"
    "readRemaining (normalizeNewlines ''hel'') [Inr ''lo''] = Inr ''hello''"
    "JSON_parse refHost ''hello'' = None"
    by code_simp+
  have s2: "\<not> looksLikeJson (trimStart (normalizeNewlines quotedTextBody))"
    "\<not> looksLikeSse (trimStart (normalizeNewlines quotedTextBody)) (normalizeNewlines quotedTextBody)"
    "readRemaining (normalizeNewlines quotedTextBody) [] = Inr quotedTextBody"
    "JSON_parse refHost quotedTextBody = Some (JStr ''hello'')"
    by code_simp+
  from C8_plain_text_body [OF cfg f1 ok body s1(1-3), of refHost] s1(4)
  have r1: "chatRespond refHost (Inr exampleConfig) (serve (okResponse [Inr ''hel'', Inr ''lo'']))
     = Failed ''Invalid JSON response from API.''"
    by simp
  from C8_plain_text_body [OF cfg f2 ok body s2(1-3), of refHost] s2(4)
  have r2: "chatRespond refHost (Inr exampleConfig) (serve (okResponse [Inr quotedTextBody]))
     = Content []"
    by simp
  from r1 r2 show ?thesis by simp
qed

text \<open>
  C8 as stated fails: for the body \<open>hello\<close> the read throws and the reply is \<open>Failed\<close>,
  not a value with the empty text.
\<close>

theorem C8_invalid_json_counterexample:
  "sniffMode plainTextBody = JsonMode
   \<and> JSON_parse refHost plainTextBody = None
   \<and> readResponseText refHost (Some [Inr plainTextBody])
       = Inl (newError ''Invalid JSON response from API.'')
   \<and> chatRespond refHost (Inr exampleConfig) (serve (okResponse [Inr plainTextBody]))
       = Failed ''Invalid JSON response from API.''"
  by code_simp

text \<open>
  C9. A token that already carries the scheme prefix, \<open>Bearer abc\<close>, is not passed through:
  the header sent is \<open>Bearer Bearer abc\<close>, because the test of the source asks for a
  backslash after \<open>Bearer\<close> where white space was meant.
\<close>

theorem C9_bearer_token_prefixed_twice:
  "buildAuthHeaders ''Bearer abc'' = Some ''Bearer Bearer abc''"
  by (simp add: buildAuthHeaders_def trim_def trimStart_def trimEnd_def isWhiteSpace_def
      bearerSchemeTest_def lowerASCII_def BSL_def)

text \<open>
  C10 (amended). For every thrown value the handler catches, the reply is the
  cancellation marker exactly when the name is \<open>AbortError\<close> or the message or the string
  form holds the word \<open>abort\<close>, whatever the case of its letters; a \<open>Failed\<close> reply made
  from a thrown value never holds that word. A \<open>Failed\<close> reply of the handler that holds
  it comes from the branch for a response whose status is not a success, which does
  not throw.
\<close>

theorem C10_cancelled_iff_abort:
  "(chatCatch err = Cancelled \<longleftrightarrow>
      errName err = Some ''AbortError'' \<or> testCI ''abort'' (errMessage err)
        \<or> testCI ''abort'' (errToString err))
   \<and> (\<forall>msg. chatCatch err = Failed msg \<longrightarrow> \<not> testCI ''abort'' msg)
   \<and> (chatTry h loaded fetch = Inl err \<longrightarrow> chatRespond h loaded fetch = chatCatch err)
   \<and> (\<forall>msg. chatRespond h loaded fetch = Failed msg \<and> testCI ''abort'' msg
         \<longrightarrow> (\<exists>res. outcome (fetchWithRetry fetch 1 350) = Inr res \<and> \<not> resOk res
                    \<and> chatTry h loaded fetch = Inr (Failed msg)))"
proof -
  have a: "chatCatch err = Cancelled \<longleftrightarrow>
      errName err = Some ''AbortError'' \<or> testCI ''abort'' (errMessage err)
        \<or> testCI ''abort'' (errToString err)"
    unfolding isAbort_iff [symmetric] by (simp add: chatCatch_def Let_def)
  have b: "\<forall>msg. chatCatch err = Failed msg \<longrightarrow> \<not> testCI ''abort'' msg"
    using chatCatch_Failed_no_abort by blast
  have c: "chatTry h loaded fetch = Inl err \<longrightarrow> chatRespond h loaded fetch = chatCatch err"
    by (simp add: chatRespond_def)
  have d: "\<exists>res. outcome (fetchWithRetry fetch 1 350) = Inr res \<and> \<not> resOk res
                    \<and> chatTry h loaded fetch = Inr (Failed msg)"
    if r: "chatRespond h loaded fetch = Failed msg" and t: "testCI ''abort'' msg" for msg
  proof (cases "chatTry h loaded fetch")
    case (Inl e)
    with r have "chatCatch e = Failed msg" by (simp add: chatRespond_def)
    with t chatCatch_Failed_no_abort show ?thesis by blast
  next
    case (Inr reply)
    with r have f: "chatTry h loaded fetch = Inr (Failed msg)" by (simp add: chatRespond_def)
    then obtain res where "outcome (fetchWithRetry fetch 1 350) = Inr res" and "\<not> resOk res"
      by (auto simp: chatTry_def Let_def split: sum.splits if_splits)
    with f show ?thesis by blast
  qed
  from a b c d show ?thesis by blast
qed

text \<open>A TypeError whose message holds the word is reported as cancelled.\<close>

theorem C10_abort_error_witness:
  "chatCatch (ErrorObj ''TypeError'' ''The operation was aborted'') = Cancelled
   \<and> chatCatch (ErrorObj ''TypeError'' ''Failed to fetch'')
       = Failed ''Network error: Failed to fetch (temporary connection issue or API unreachable).''"
proof -
  have "testCI ''abort'' (errMessage (ErrorObj ''TypeError'' ''The operation was aborted''))"
    by code_simp
  with C10_cancelled_iff_abort [of "ErrorObj ''TypeError'' ''The operation was aborted''"]
  have "chatCatch (ErrorObj ''TypeError'' ''The operation was aborted'') = Cancelled"
    by blast
  moreover have "chatCatch (ErrorObj ''TypeError'' ''Failed to fetch'')
       = Failed ''Network error: Failed to fetch (temporary connection issue or API unreachable).''"
    by code_simp
  ultimately show ?thesis by simp
qed

text \<open>
  C10 as stated fails: a response with status 500 whose body carries the message
  \<open>upstream aborted\<close> gives a \<open>Failed\<close> reply that holds the word \<open>abort\<close>.
\<close>

theorem C10_http_error_counterexample:
  "chatRespond refHost (Inr exampleConfig) (serve abortedHttpError)
     = Failed ''HTTP 500: upstream aborted''
   \<and> testCI ''abort'' ''HTTP 500: upstream aborted''"
  by code_simp

end
